theory Spec2Isabelle
  imports Main
begin

section \<open>The configuration client of \<open>pkg/conf\<close>\<close>

text \<open>
  A shallow embedding of \<open>pkg/conf/conf.go\<close> (process role selection and package
  initialisation) and of the client of the same package (\<open>Get\<close>, \<open>Watch\<close>,
  \<open>notifyWatchers\<close>, the background refresh loop and its fetchers).

  Every effect of the Go code is explicit: an operation takes the state it reads and
  returns the state it leaves, together with the list of the externally visible actions
  it performed, in program order (its trace). Errors are values, a \<open>nil\<close> error is
  \<open>None\<close>, a panic is a result of its own, and \<open>log.Fatalf\<close> is the last action of a
  trace.
\<close>

subsection \<open>Errors\<close>

text \<open>
  An \<open>error\<close> of Go is either an opaque error with its message or the result of
  \<open>errors.Wrap(err, msg)\<close>, which keeps the cause and adds context.
\<close>

datatype error = Err string | Wrap error string

subsection \<open>Process role: \<open>getMode\<close>\<close>

datatype configurationMode = modeServer | modeClient | modeTest

text \<open>
  The process environment is a partial map from variable names to values;
  \<open>os.Getenv\<close> returns the empty string for a variable that is not set.
\<close>

type_synonym environ = "string \<rightharpoonup> string"

definition Getenv :: "environ \<Rightarrow> string \<Rightarrow> string" where
  "Getenv env k = (case env k of None \<Rightarrow> [] | Some v \<Rightarrow> v)"

text \<open>
  \<open>filepath.Ext\<close> of the Go standard library: the suffix of the path that begins at the
  last dot of its last element, and the empty string when that element has no dot.
  The library scans the path from its end and stops at a path separator;
  \<open>ext_scan\<close> is that scan, over the reversed path, collecting the suffix read so far.
\<close>

fun ext_scan :: "string \<Rightarrow> string \<Rightarrow> string" where
  "ext_scan [] suffix = []"
| "ext_scan (ch # front) suffix =
     (if ch = CHR ''/'' then []
      else if ch = CHR ''.'' then ch # suffix
      else ext_scan front (ch # suffix))"

definition Ext :: "string \<Rightarrow> string" where
  "Ext path = ext_scan (rev path) []"

text \<open>
  \<open>getMode\<close> reads \<open>CONFIGURATION_MODE\<close> and, in the default branch, the result
  \<open>(p, err)\<close> of \<open>os.Executable()\<close>.
\<close>

definition getMode :: "environ \<Rightarrow> string \<times> error option \<Rightarrow> configurationMode" where
  "getMode env exe =
     (let mode = Getenv env ''CONFIGURATION_MODE'' in
      if mode = ''server'' then modeServer
      else if mode = ''client'' then modeClient
      else (case exe of (p, err) \<Rightarrow>
              if err = None \<and> Ext p = ''.test'' then modeTest
              else modeClient))"

subsection \<open>External collaborators\<close>

text \<open>
  The validating stores (\<open>pkg/conf/store\<close>) and the authoritative configuration server
  (\<open>cmd/frontend/globals/confserver\<close>) are used by the client through their methods
  only. Their methods are parameters of the model: \<open>'s\<close> is the state of a store,
  \<open>'v\<close> the validated configuration it holds, \<open>'srv\<close> the state of the server.

  \<^item> \<open>NewStore\<close> is the store \<open>store.NewBasicStore()\<close> / \<open>store.NewCoreStore()\<close> returns;
  \<^item> \<open>LastValid\<close> returns a pointer that may be \<open>nil\<close> (\<open>None\<close>);
  \<^item> \<open>MaybeUpdate raw s\<close> returns the \<open>Changed\<close> flag of the update result, the error
    and the store as the call leaves it;
  \<^item> \<open>Initialized\<close> is the condition \<open>WaitUntilInitialized\<close> waits for.
\<close>

record ('s, 'v) store_ops =
  NewStore :: 's
  LastValid :: "'s \<Rightarrow> 'v option"
  MaybeUpdate :: "string \<Rightarrow> 's \<Rightarrow> (bool \<times> error option) \<times> 's"
  Mock :: "'v option \<Rightarrow> 's \<Rightarrow> 's"
  Initialized :: "'s \<Rightarrow> bool"

record 'srv server_ops =
  NewServer :: "string \<Rightarrow> string \<Rightarrow> 'srv"
  Start :: "'srv \<Rightarrow> 'srv"
  RawBasic :: "'srv \<Rightarrow> string"
  RawCore :: "'srv \<Rightarrow> string"

record ('bs, 'b, 'cs, 'c, 'srv) deps =
  basic :: "('bs, 'b) store_ops"
  core :: "('cs, 'c) store_ops"
  confserver :: "'srv server_ops"

text \<open>
  What the world outside the client answers at one moment: the value of the global
  \<open>globals.ConfigurationServerFrontendOnly\<close> (\<open>None\<close> is \<open>nil\<close>), the results
  \<open>(rawJSON, err)\<close> of the two calls of \<open>api.InternalClient\<close>, and the raw sample of
  \<open>rand.Int63()\<close> that the next call of \<open>rand.Int63n\<close> accepts.
\<close>

record 'srv extern =
  globalServer :: "'srv option"
  ConfigurationBasicRawJSON :: "string \<times> error option"
  ConfigurationCoreRawJSON :: "string \<times> error option"
  Int63 :: int

datatype 'a outcome = Returns 'a | Panics

subsection \<open>The client\<close>

text \<open>
  A watcher channel is a \<open>chan struct{}\<close>: its elements carry no data, so a channel is
  its capacity, the number of elements in its buffer, and whether its receiver is
  parked in a receive. A watcher channel has one receiver, the goroutine that \<open>Watch\<close>
  starts, which is parked when it has executed \<open><-notify\<close> on an empty buffer and no
  send has woken it since. A channel of the registry is named by its index.
\<close>

record chan =
  cap :: nat
  buffered :: nat
  parked :: bool

definition make_chan :: "nat \<Rightarrow> chan" where
  "make_chan n = \<lparr>cap = n, buffered = 0, parked = False\<rparr>"

text \<open>The two implementations of each fetcher interface.\<close>

datatype basicFetcher = httpBasicFetcher | passthroughBasicFetcherFrontendOnly

datatype coreFetcher = httpCoreFetcher | passthroughCoreFetcherFrontendOnly

text \<open>
  The struct \<open>client\<close>. The stores are held by value: the client is the only holder of
  the two pointers once \<open>init\<close> has returned. The mutex \<open>watchersMu\<close> has no field: of
  the two critical sections it guards, the append of \<open>Watch\<close> is one atomic step, and the
  loop of \<open>notifyWatchers\<close> excludes any append while it runs.
\<close>

record ('bs, 'cs) client =
  basicStore :: 'bs
  basicFetcher :: basicFetcher
  coreStore :: 'cs
  coreFetcher :: coreFetcher
  watchers :: "chan list"

text \<open>The actions a thread performs, as its trace records them.\<close>

datatype goroutine = GoContinuouslyUpdate | GoWatcher nat

datatype action =
    MakeChan nat
  | AppendWatcher nat
  | WaitedBasic
  | WaitedCore
  | Callback
  | Go goroutine
  | FetchBasic
  | FetchCore
  | UpdateBasic string
  | UpdateCore string
  | NotifyWatchers
  | LogPrintf "error list"
  | Sleep int
  | LogFatalf error
  | NewServerCall string string
  | StartServer
  | InstallBasicFetcher basicFetcher
  | InstallCoreFetcher coreFetcher

subsubsection \<open>Read path: \<open>Get\<close>, \<open>GetTODO\<close>\<close>

text \<open>
  \<open>Get\<close> returns \<open>&SiteConfiguration{...}\<close>: it allocates. The heap of
  \<open>SiteConfiguration\<close> objects is the list of the objects allocated so far, an address is
  an index into it, and an allocation appends.
\<close>

record ('b, 'c) SiteConfiguration =
  Basic :: "'b option"
  Core :: "'c option"

datatype ptr = Nil | Addr nat

type_synonym ('b, 'c) heap = "('b, 'c) SiteConfiguration list"

fun deref :: "('b, 'c) heap \<Rightarrow> ptr \<Rightarrow> ('b, 'c) SiteConfiguration option" where
  "deref h Nil = None"
| "deref h (Addr a) = (if a < length h then Some (h ! a) else None)"

definition new :: "('b, 'c) SiteConfiguration \<Rightarrow> ('b, 'c) heap \<Rightarrow> ptr \<times> ('b, 'c) heap" where
  "new obj h = (Addr (length h), h @ [obj])"

definition Get ::
  "('bs, 'b, 'cs, 'c, 'srv) deps \<Rightarrow> ('bs, 'cs) client \<Rightarrow> ('b, 'c) heap \<Rightarrow> ptr \<times> ('b, 'c) heap" where
  "Get d c h =
     new \<lparr>Basic = LastValid (basic d) (basicStore c),
          Core = LastValid (core d) (coreStore c)\<rparr> h"

definition GetTODO ::
  "('bs, 'b, 'cs, 'c, 'srv) deps \<Rightarrow> ('bs, 'cs) client \<Rightarrow> ('b, 'c) heap \<Rightarrow> ptr \<times> ('b, 'c) heap" where
  "GetTODO d c h = Get d c h"

subsubsection \<open>Mock path\<close>

definition MockBasic ::
  "('bs, 'b, 'cs, 'c, 'srv) deps \<Rightarrow> 'b option \<Rightarrow> ('bs, 'cs) client \<Rightarrow> ('bs, 'cs) client" where
  "MockBasic d mockery c = c\<lparr>basicStore := Mock (basic d) mockery (basicStore c)\<rparr>"

definition MockCore ::
  "('bs, 'b, 'cs, 'c, 'srv) deps \<Rightarrow> 'c option \<Rightarrow> ('bs, 'cs) client \<Rightarrow> ('bs, 'cs) client" where
  "MockCore d mockery c = c\<lparr>coreStore := Mock (core d) mockery (coreStore c)\<rparr>"

subsubsection \<open>\<open>notifyWatchers\<close>\<close>

text \<open>
  The non-blocking send \<open>select { case watcher <- struct{}{}: default: }\<close>. When the
  receiver is parked in its receive, the element is handed to it: the receiver is
  woken and the buffer stays empty. Otherwise the element goes into the buffer when
  there is room, and nothing happens when there is none (the \<open>default\<close> case).
\<close>

definition try_send :: "chan \<Rightarrow> chan" where
  "try_send ch =
     (if parked ch then ch\<lparr>parked := False\<rparr>
      else if buffered ch < cap ch then ch\<lparr>buffered := buffered ch + 1\<rparr>
      else ch)"

text \<open>The loop \<open>for _, watcher := range c.watchers\<close>, run without interference.\<close>

fun notify_each :: "chan list \<Rightarrow> chan list" where
  "notify_each [] = []"
| "notify_each (watcher # rest) = try_send watcher # notify_each rest"

definition notifyWatchers :: "('bs, 'cs) client \<Rightarrow> ('bs, 'cs) client" where
  "notifyWatchers c = c\<lparr>watchers := notify_each (watchers c)\<rparr>"

text \<open>
  The receive \<open><-notify\<close> of the watcher goroutine takes one element of the buffer; on an
  empty buffer the goroutine parks, and stays parked until a send wakes it.
\<close>

definition receive :: "chan \<Rightarrow> chan" where
  "receive ch =
     (if parked ch then ch
      else if 0 < buffered ch then ch\<lparr>buffered := buffered ch - 1\<rparr>
      else ch\<lparr>parked := True\<rparr>)"

text \<open>
  A receive takes an element when the receiver is not parked and the buffer is not
  empty.
\<close>

definition takes :: "chan \<Rightarrow> bool" where
  "takes ch \<longleftrightarrow> \<not> parked ch \<and> 0 < buffered ch"

text \<open>
  The same loop, one iteration at a time, with the receives of the watcher goroutines in
  between. A receive takes no lock, so it can happen while \<open>notifyWatchers\<close> holds the
  mutex; an append (of \<open>Watch\<close>) cannot. A state of the loop is the index of the next
  watcher, the channels, and the set of the watchers that have got a notification since
  the loop began (a send handed it to them, or their receive took it from the buffer);
  \<open>Send\<close> is a turn of the loop, \<open>Drain i\<close> is a receive of the goroutine of watcher \<open>i\<close>.
\<close>

datatype notify_turn = Send | Drain nat

fun notifyWatchers_run ::
  "notify_turn list \<Rightarrow> nat \<times> chan list \<times> nat set \<Rightarrow> nat \<times> chan list \<times> nat set" where
  "notifyWatchers_run [] state = state"
| "notifyWatchers_run (Send # sched) (k, ws, got) =
     notifyWatchers_run sched
       (if k < length ws
        then (k + 1, ws[k := try_send (ws ! k)], if parked (ws ! k) then insert k got else got)
        else (k, ws, got))"
| "notifyWatchers_run (Drain i # sched) (k, ws, got) =
     notifyWatchers_run sched
       (if i < length ws
        then (k, ws[i := receive (ws ! i)], if takes (ws ! i) then insert i got else got)
        else (k, ws, got))"

subsubsection \<open>Fetchers\<close>

text \<open>
  \<open>FetchBasicConfig\<close> and \<open>FetchCoreConfig\<close>, by implementation. The HTTP fetchers return
  what the internal API returned, value and error as they are. The passthrough fetchers
  read the global configuration server: they return no error, and they panic when that
  global is \<open>nil\<close> (the method dereferences it).
\<close>

fun FetchBasicConfig ::
  "('bs, 'b, 'cs, 'c, 'srv) deps \<Rightarrow> 'srv extern \<Rightarrow> basicFetcher \<Rightarrow> (string \<times> error option) outcome" where
  "FetchBasicConfig d w httpBasicFetcher = Returns (ConfigurationBasicRawJSON w)"
| "FetchBasicConfig d w passthroughBasicFetcherFrontendOnly =
     (case globalServer w of
        None \<Rightarrow> Panics
      | Some srv \<Rightarrow> Returns (RawBasic (confserver d) srv, None))"

fun FetchCoreConfig ::
  "('bs, 'b, 'cs, 'c, 'srv) deps \<Rightarrow> 'srv extern \<Rightarrow> coreFetcher \<Rightarrow> (string \<times> error option) outcome" where
  "FetchCoreConfig d w httpCoreFetcher = Returns (ConfigurationCoreRawJSON w)"
| "FetchCoreConfig d w passthroughCoreFetcherFrontendOnly =
     (case globalServer w of
        None \<Rightarrow> Panics
      | Some srv \<Rightarrow> Returns (RawCore (confserver d) srv, None))"

subsubsection \<open>One refresh step per category\<close>

text \<open>
  \<open>fetchAndUpdateBasic\<close> in two parts: the call of the fetcher, which may panic, and
  \<open>updateBasic\<close>, the rest of the function's body, run on the pair \<open>(newRawConfig, err)\<close>
  that the fetcher returned. The result is the error returned (\<open>None\<close> is \<open>nil\<close>), the
  client as the step leaves it and the trace of the step.
\<close>

definition updateBasic ::
  "('bs, 'b, 'cs, 'c, 'srv) deps \<Rightarrow> string \<times> error option \<Rightarrow> ('bs, 'cs) client \<Rightarrow>
     error option \<times> ('bs, 'cs) client \<times> action list" where
  "updateBasic d fetched c =
     (case fetched of (newRawConfig, err) \<Rightarrow>
        (case err of
           Some e \<Rightarrow> (Some (Wrap e ''unable to fetch new basic configuration''), c, [FetchBasic])
         | None \<Rightarrow>
             (case MaybeUpdate (basic d) newRawConfig (basicStore c) of
                ((changed, err'), s') \<Rightarrow>
                  (case err' of
                     Some e \<Rightarrow>
                       (Some (Wrap e ''unable to update new basic configuration''),
                        c\<lparr>basicStore := s'\<rparr>, [FetchBasic, UpdateBasic newRawConfig])
                   | None \<Rightarrow>
                       if changed
                       then (None, notifyWatchers (c\<lparr>basicStore := s'\<rparr>),
                             [FetchBasic, UpdateBasic newRawConfig, NotifyWatchers])
                       else (None, c\<lparr>basicStore := s'\<rparr>,
                             [FetchBasic, UpdateBasic newRawConfig])))))"

definition fetchAndUpdateBasic ::
  "('bs, 'b, 'cs, 'c, 'srv) deps \<Rightarrow> 'srv extern \<Rightarrow> ('bs, 'cs) client \<Rightarrow>
     (error option \<times> ('bs, 'cs) client \<times> action list) outcome" where
  "fetchAndUpdateBasic d w c =
     (case FetchBasicConfig d w (basicFetcher c) of
        Panics \<Rightarrow> Panics
      | Returns fetched \<Rightarrow> Returns (updateBasic d fetched c))"

definition updateCore ::
  "('bs, 'b, 'cs, 'c, 'srv) deps \<Rightarrow> string \<times> error option \<Rightarrow> ('bs, 'cs) client \<Rightarrow>
     error option \<times> ('bs, 'cs) client \<times> action list" where
  "updateCore d fetched c =
     (case fetched of (newRawConfig, err) \<Rightarrow>
        (case err of
           Some e \<Rightarrow> (Some (Wrap e ''unable to fetch new core configuration''), c, [FetchCore])
         | None \<Rightarrow>
             (case MaybeUpdate (core d) newRawConfig (coreStore c) of
                ((changed, err'), s') \<Rightarrow>
                  (case err' of
                     Some e \<Rightarrow>
                       (Some (Wrap e ''unable to update new core configuration''),
                        c\<lparr>coreStore := s'\<rparr>, [FetchCore, UpdateCore newRawConfig])
                   | None \<Rightarrow>
                       if changed
                       then (None, notifyWatchers (c\<lparr>coreStore := s'\<rparr>),
                             [FetchCore, UpdateCore newRawConfig, NotifyWatchers])
                       else (None, c\<lparr>coreStore := s'\<rparr>,
                             [FetchCore, UpdateCore newRawConfig])))))"

definition fetchAndUpdateCore ::
  "('bs, 'b, 'cs, 'c, 'srv) deps \<Rightarrow> 'srv extern \<Rightarrow> ('bs, 'cs) client \<Rightarrow>
     (error option \<times> ('bs, 'cs) client \<times> action list) outcome" where
  "fetchAndUpdateCore d w c =
     (case FetchCoreConfig d w (coreFetcher c) of
        Panics \<Rightarrow> Panics
      | Returns fetched \<Rightarrow> Returns (updateCore d fetched c))"

subsubsection \<open>The background refresh loop\<close>

text \<open>
  A \<open>*multierror.Error\<close> is the list of the errors appended to it:
  \<open>multierror.Append\<close> drops a \<open>nil\<close> error, and \<open>ErrorOrNil\<close> is \<open>nil\<close> for the empty list.
\<close>

definition Append :: "error list \<Rightarrow> error option \<Rightarrow> error list" where
  "Append errs err = (case err of None \<Rightarrow> errs | Some e \<Rightarrow> errs @ [e])"

definition ErrorOrNil :: "error list \<Rightarrow> error list option" where
  "ErrorOrNil errs = (if errs = [] then None else Some errs)"

text \<open>\<open>time.Second\<close>, in nanoseconds, the unit of \<open>time.Duration\<close>.\<close>

definition Second :: int where
  "Second = 1000000000"

text \<open>
  \<open>rand.Int63n(n)\<close> of \<open>math/rand\<close>, for a positive \<open>n\<close>: it draws raw samples of 63 bits
  with \<open>rand.Int63()\<close> until one is at most \<open>max = (1 << 63) - 1 - (1 << 63) % n\<close>, and
  returns that sample modulo \<open>n\<close> (for a power of two it masks the first sample, which is
  the sample modulo \<open>n\<close> as well). \<open>Int63n n v\<close> is what the call returns when \<open>v\<close> is the
  sample it accepts; a sample is \<open>accepted\<close> when it is not negative and at most \<open>max\<close>.
\<close>

definition Int63n_max :: "int \<Rightarrow> int" where
  "Int63n_max n = 2 ^ 63 - 1 - 2 ^ 63 mod n"

definition accepted :: "int \<Rightarrow> int \<Rightarrow> bool" where
  "accepted n v \<longleftrightarrow> 0 \<le> v \<and> v \<le> Int63n_max n"

definition Int63n :: "int \<Rightarrow> int \<Rightarrow> int" where
  "Int63n n v = v mod n"

text \<open>
  The body of the loop of \<open>continuouslyUpdate\<close>, run in the world \<open>w\<close>. A panic of a
  fetcher is not recovered: it ends the process.
\<close>

definition iteration ::
  "('bs, 'b, 'cs, 'c, 'srv) deps \<Rightarrow> 'srv extern \<Rightarrow> ('bs, 'cs) client \<Rightarrow>
     (('bs, 'cs) client \<times> action list) outcome" where
  "iteration d w c =
     (case fetchAndUpdateBasic d w c of
        Panics \<Rightarrow> Panics
      | Returns (err1, c1, t1) \<Rightarrow>
          (case fetchAndUpdateCore d w c1 of
             Panics \<Rightarrow> Panics
           | Returns (err2, c2, t2) \<Rightarrow>
               (let errs = Append (Append [] err1) err2;
                    logged = (if ErrorOrNil errs \<noteq> None then [LogPrintf errs] else []);
                    jitter = Int63n (5 * Second) (Int63 w)
                in Returns (c2, t1 @ t2 @ logged @ [Sleep jitter]))))"

text \<open>
  The loop \<open>for { ... }\<close> has no exit. \<open>continuouslyUpdate d ws c\<close> runs one iteration
  per world of \<open>ws\<close>, in order: the client and the trace of the loop after \<open>length ws\<close>
  iterations, when no iteration panicked.
\<close>

fun continuouslyUpdate ::
  "('bs, 'b, 'cs, 'c, 'srv) deps \<Rightarrow> 'srv extern list \<Rightarrow> ('bs, 'cs) client \<Rightarrow>
     (('bs, 'cs) client \<times> action list) outcome" where
  "continuouslyUpdate d [] c = Returns (c, [])"
| "continuouslyUpdate d (w # ws) c =
     (case iteration d w c of
        Panics \<Rightarrow> Panics
      | Returns (c1, t1) \<Rightarrow>
          (case continuouslyUpdate d ws c1 of
             Panics \<Rightarrow> Panics
           | Returns (c2, t2) \<Rightarrow> Returns (c2, t1 @ t2)))"

subsubsection \<open>\<open>Watch\<close>\<close>

text \<open>
  \<open>Watch\<close> blocks, and what it waits for is done by other goroutines, so a call of
  \<open>Watch\<close> is a thread of its own: a program counter, the index of the channel it
  registered, and the trace of what it has done. The program points are

  \<^item> \<open>AtRegister\<close>: before \<open>notify := make(chan struct{}, 1)\<close> and the append under the mutex
    (one atomic step: no other goroutine can reach the channel before it is appended);
  \<^item> \<open>AtWaitBasic\<close>, \<open>AtWaitCore\<close>: in \<open>c.basicStore.WaitUntilInitialized()\<close> and in
    \<open>c.coreStore.WaitUntilInitialized()\<close>;
  \<^item> \<open>AtCallback\<close>: before the call \<open>f()\<close>;
  \<^item> \<open>AtSpawn\<close>: before the \<open>go\<close> statement;
  \<^item> \<open>AtReturn\<close>: \<open>Watch\<close> has returned.

  The callback \<open>f\<close> is any function of Go; when it runs it may call the client again,
  so it is a function from the client to the client.
\<close>

datatype pc = AtRegister | AtWaitBasic | AtWaitCore | AtCallback | AtSpawn | AtReturn

record watch_call =
  pc :: pc
  notify :: "nat option"
  trace :: "action list"

definition watch_start :: watch_call where
  "watch_start = \<lparr>pc = AtRegister, notify = None, trace = []\<rparr>"

text \<open>
  One step of the call. A step at a wait whose store is not initialized changes
  nothing: the call stays blocked.
\<close>

fun Watch_step ::
  "('bs, 'b, 'cs, 'c, 'srv) deps \<Rightarrow> (('bs, 'cs) client \<Rightarrow> ('bs, 'cs) client) \<Rightarrow>
     watch_call \<times> ('bs, 'cs) client \<Rightarrow> watch_call \<times> ('bs, 'cs) client" where
  "Watch_step d f (t, c) =
     (case pc t of
        AtRegister \<Rightarrow>
          (t\<lparr>pc := AtWaitBasic, notify := Some (length (watchers c)),
             trace := trace t @ [MakeChan 1, AppendWatcher (length (watchers c))]\<rparr>,
           c\<lparr>watchers := watchers c @ [make_chan 1]\<rparr>)
      | AtWaitBasic \<Rightarrow>
          if Initialized (basic d) (basicStore c)
          then (t\<lparr>pc := AtWaitCore, trace := trace t @ [WaitedBasic]\<rparr>, c)
          else (t, c)
      | AtWaitCore \<Rightarrow>
          if Initialized (core d) (coreStore c)
          then (t\<lparr>pc := AtCallback, trace := trace t @ [WaitedCore]\<rparr>, c)
          else (t, c)
      | AtCallback \<Rightarrow> (t\<lparr>pc := AtSpawn, trace := trace t @ [Callback]\<rparr>, f c)
      | AtSpawn \<Rightarrow>
          (t\<lparr>pc := AtReturn,
             trace := trace t @ (case notify t of None \<Rightarrow> [] | Some n \<Rightarrow> [Go (GoWatcher n)])\<rparr>, c)
      | AtReturn \<Rightarrow> (t, c))"

text \<open>
  What the other goroutines do to the client in one atomic step: the refresher ran
  the update of a category on what its fetcher returned, a test called a mock, another
  call of \<open>Watch\<close> registered its channel, or the goroutine of watcher \<open>i\<close> received from
  its channel (which takes one element of the buffer, and parks on an empty one).
\<close>

datatype ('b, 'c) other =
    RefreshedBasic "string \<times> error option"
  | RefreshedCore "string \<times> error option"
  | CalledMockBasic "'b option"
  | CalledMockCore "'c option"
  | Registered
  | Received nat

fun other_step ::
  "('bs, 'b, 'cs, 'c, 'srv) deps \<Rightarrow> ('b, 'c) other \<Rightarrow> ('bs, 'cs) client \<Rightarrow> ('bs, 'cs) client" where
  "other_step d (RefreshedBasic fetched) c = fst (snd (updateBasic d fetched c))"
| "other_step d (RefreshedCore fetched) c = fst (snd (updateCore d fetched c))"
| "other_step d (CalledMockBasic mockery) c = MockBasic d mockery c"
| "other_step d (CalledMockCore mockery) c = MockCore d mockery c"
| "other_step d Registered c = c\<lparr>watchers := watchers c @ [make_chan 1]\<rparr>"
| "other_step d (Received i) c =
     (if i < length (watchers c)
      then c\<lparr>watchers := (watchers c)[i := receive (watchers c ! i)]\<rparr>
      else c)"

text \<open>
  A schedule says whose turn it is: of the call of \<open>Watch\<close> (\<open>Self\<close>) or of another
  goroutine. \<open>Watch d f sched c\<close> is the call and the client after the schedule.
\<close>

datatype ('b, 'c) turn = Self | Other "('b, 'c) other"

fun Watch_run ::
  "('bs, 'b, 'cs, 'c, 'srv) deps \<Rightarrow> (('bs, 'cs) client \<Rightarrow> ('bs, 'cs) client) \<Rightarrow>
     ('b, 'c) turn list \<Rightarrow> watch_call \<times> ('bs, 'cs) client \<Rightarrow> watch_call \<times> ('bs, 'cs) client" where
  "Watch_run d f [] tc = tc"
| "Watch_run d f (Self # sched) tc = Watch_run d f sched (Watch_step d f tc)"
| "Watch_run d f (Other a # sched) tc =
     Watch_run d f sched (fst tc, other_step d a (snd tc))"

definition Watch ::
  "('bs, 'b, 'cs, 'c, 'srv) deps \<Rightarrow> (('bs, 'cs) client \<Rightarrow> ('bs, 'cs) client) \<Rightarrow>
     ('b, 'c) turn list \<Rightarrow> ('bs, 'cs) client \<Rightarrow> watch_call \<times> ('bs, 'cs) client" where
  "Watch d f sched c = Watch_run d f sched (watch_start, c)"

text \<open>
  The steps of the other goroutines in a schedule, in order, and whether the next step
  of the call of \<open>Watch\<close> can be taken: at a wait, when the store is initialized; after
  the return, never; anywhere else, always.
\<close>

fun others :: "('b, 'c) turn list \<Rightarrow> ('b, 'c) other list" where
  "others [] = []"
| "others (Self # sched) = others sched"
| "others (Other a # sched) = a # others sched"

fun enabled ::
  "('bs, 'b, 'cs, 'c, 'srv) deps \<Rightarrow> pc \<Rightarrow> ('bs, 'cs) client \<Rightarrow> bool" where
  "enabled d AtWaitBasic c = Initialized (basic d) (basicStore c)"
| "enabled d AtWaitCore c = Initialized (core d) (coreStore c)"
| "enabled d AtReturn c = False"
| "enabled d p c = True"

subsection \<open>Package initialisation: \<open>init\<close>\<close>

text \<open>The raw string literal \<open>dummyConfig\<close>, with its line feeds and tabs.\<close>

definition dummyConfig :: string where
  "dummyConfig =
     [CHR 0x0A, CHR 0x09, CHR 0x09] @ ''{'' @
     [CHR 0x0A, CHR 0x09, CHR 0x09, CHR 0x09] @
     ''// This is an empty configuration to run test cases.'' @
     [CHR 0x0A, CHR 0x09, CHR 0x09] @ ''}''"

text \<open>
  The state of the process that \<open>init\<close> writes: the package variable \<open>defaultClient\<close>
  and the global \<open>globals.ConfigurationServerFrontendOnly\<close>.
\<close>

record ('bs, 'cs, 'srv) process =
  defaultClient :: "('bs, 'cs) client"
  ConfigurationServerFrontendOnly :: "'srv option"

text \<open>
  \<open>init d env exe g\<close>: the process after \<open>init\<close> and the trace of \<open>init\<close>, where \<open>g\<close> is
  the global server before. \<open>log.Fatalf\<close> exits the process: it is the last action of
  its trace.
\<close>

definition init ::
  "('bs, 'b, 'cs, 'c, 'srv) deps \<Rightarrow> environ \<Rightarrow> string \<times> error option \<Rightarrow> 'srv option \<Rightarrow>
     ('bs, 'cs, 'srv) process \<times> action list" where
  "init d env exe g =
     (let clientBasicStore = NewStore (basic d);
          clientCoreStore = NewStore (core d);
          c = \<lparr>basicStore = clientBasicStore, basicFetcher = httpBasicFetcher,
               coreStore = clientCoreStore, coreFetcher = httpCoreFetcher,
               watchers = []\<rparr>;
          mode = getMode env exe
      in
      if mode = modeTest then
        (case MaybeUpdate (basic d) dummyConfig clientBasicStore of
           ((_, err), bs) \<Rightarrow>
             (case err of
                Some e \<Rightarrow>
                  (\<lparr>defaultClient = c\<lparr>basicStore := bs\<rparr>, ConfigurationServerFrontendOnly = g\<rparr>,
                   [UpdateBasic dummyConfig, LogFatalf e])
              | None \<Rightarrow>
                  (case MaybeUpdate (core d) dummyConfig clientCoreStore of
                     ((_, err'), cs) \<Rightarrow>
                       (case err' of
                          Some e \<Rightarrow>
                            (\<lparr>defaultClient = c\<lparr>basicStore := bs, coreStore := cs\<rparr>,
                              ConfigurationServerFrontendOnly = g\<rparr>,
                             [UpdateBasic dummyConfig, UpdateCore dummyConfig, LogFatalf e])
                        | None \<Rightarrow>
                            (\<lparr>defaultClient = c\<lparr>basicStore := bs, coreStore := cs\<rparr>,
                              ConfigurationServerFrontendOnly = g\<rparr>,
                             [UpdateBasic dummyConfig, UpdateCore dummyConfig])))))
      else if mode = modeServer then
        (let file = Getenv env ''SOURCEGRAPH_CONFIG_FILE'';
             coreFile = Getenv env ''SOURCEGRAPH_CONFIG_CORE_FILE'';
             srv = Start (confserver d) (NewServer (confserver d) file coreFile)
         in (\<lparr>defaultClient = c\<lparr>basicFetcher := passthroughBasicFetcherFrontendOnly,
                                 coreFetcher := passthroughCoreFetcherFrontendOnly\<rparr>,
              ConfigurationServerFrontendOnly = Some srv\<rparr>,
             [NewServerCall file coreFile, StartServer,
              InstallBasicFetcher passthroughBasicFetcherFrontendOnly,
              InstallCoreFetcher passthroughCoreFetcherFrontendOnly,
              Go GoContinuouslyUpdate]))
      else
        (\<lparr>defaultClient = c, ConfigurationServerFrontendOnly = g\<rparr>, [Go GoContinuouslyUpdate]))"

subsection \<open>A store and a server to run the client on\<close>

text \<open>
  Modelled from the spec: the validating store of \<open>pkg/conf/store\<close>, whose code is not
  among the source files. It holds the last valid configuration (or none), a mock
  override that takes precedence when present, and whether it is initialized: it
  becomes initialized on the first accepted document or when a mock is set. A rejected
  document leaves it untouched and reports no change; an accepted one replaces the last
  valid configuration and reports whether the value changed. Setting the mock to the
  empty value clears the override. The validation itself is the parameter \<open>validate\<close>.
\<close>

record 'v store =
  lastValid :: "'v option"
  mock :: "'v option"
  ready :: bool

definition spec_store :: "(string \<Rightarrow> error + 'v) \<Rightarrow> ('v store, 'v) store_ops" where
  "spec_store validate =
     \<lparr>NewStore = \<lparr>lastValid = None, mock = None, ready = False\<rparr>,
      LastValid = (\<lambda>s. case mock s of Some m \<Rightarrow> Some m | None \<Rightarrow> lastValid s),
      MaybeUpdate = (\<lambda>raw s.
        case validate raw of
          Inl e \<Rightarrow> ((False, Some e), s)
        | Inr v \<Rightarrow> ((lastValid s \<noteq> Some v, None), s\<lparr>lastValid := Some v, ready := True\<rparr>)),
      Mock = (\<lambda>m s. s\<lparr>mock := m, ready := (ready s \<or> m \<noteq> None)\<rparr>),
      Initialized = ready\<rparr>"

text \<open>
  Modelled from the spec: the authoritative server of \<open>confserver\<close>, whose code is not
  among the source files. It is constructed from the two file paths, started, and
  exposes the raw documents of the two categories. What the files hold is the parameter
  \<open>files\<close>; the server reads them when it starts.
\<close>

record server =
  configFile :: string
  coreConfigFile :: string
  rawBasic :: string
  rawCore :: string
  started :: bool

definition spec_server :: "(string \<Rightarrow> string) \<Rightarrow> server server_ops" where
  "spec_server files =
     \<lparr>NewServer = (\<lambda>file coreFile.
        \<lparr>configFile = file, coreConfigFile = coreFile, rawBasic = [], rawCore = [],
         started = False\<rparr>),
      Start = (\<lambda>srv. srv\<lparr>rawBasic := files (configFile srv),
                           rawCore := files (coreConfigFile srv), started := True\<rparr>),
      RawBasic = rawBasic,
      RawCore = rawCore\<rparr>"

text \<open>
  The collaborators of the examples: a validation that rejects the empty document
  and takes any other document as its own configuration, and files that all hold \<open>{}\<close>.
\<close>

definition validate_nonempty :: "string \<Rightarrow> error + string" where
  "validate_nonempty raw = (if raw = [] then Inl (Err ''empty document'') else Inr raw)"

definition example_deps :: "(string store, string, string store, string, server) deps" where
  "example_deps =
     \<lparr>basic = spec_store validate_nonempty,
      core = spec_store validate_nonempty,
      confserver = spec_server (\<lambda>path. ''{}'')\<rparr>"

subsection \<open>Reading traces and states\<close>

text \<open>The durations slept in a trace, and its fetches, in order.\<close>

fun sleeps :: "action list \<Rightarrow> int list" where
  "sleeps [] = []"
| "sleeps (Sleep n # tr) = n # sleeps tr"
| "sleeps (a # tr) = sleeps tr"

fun fetches :: "action list \<Rightarrow> action list" where
  "fetches [] = []"
| "fetches (FetchBasic # tr) = FetchBasic # fetches tr"
| "fetches (FetchCore # tr) = FetchCore # fetches tr"
| "fetches (a # tr) = fetches tr"

fun fatal :: "action \<Rightarrow> bool" where
  "fatal (LogFatalf e) = True"
| "fatal a = False"

text \<open>The errors of a list of results that are not \<open>nil\<close>, in order.\<close>

fun non_nil :: "error option list \<Rightarrow> error list" where
  "non_nil [] = []"
| "non_nil (None # rest) = non_nil rest"
| "non_nil (Some e # rest) = e # non_nil rest"

text \<open>Neither fetcher of the client panics in the world \<open>w\<close>.\<close>

definition fetchers_return ::
  "('bs, 'b, 'cs, 'c, 'srv) deps \<Rightarrow> 'srv extern \<Rightarrow> ('bs, 'cs) client \<Rightarrow> bool" where
  "fetchers_return d w c \<longleftrightarrow>
     FetchBasicConfig d w (basicFetcher c) \<noteq> Panics \<and>
     FetchCoreConfig d w (coreFetcher c) \<noteq> Panics"

text \<open>
  One iteration of the loop whose fetchers returned \<open>fb\<close> and \<open>fc\<close>, written out on
  the two updates.
\<close>

definition after_iteration ::
  "('bs, 'b, 'cs, 'c, 'srv) deps \<Rightarrow> string \<times> error option \<Rightarrow> string \<times> error option \<Rightarrow>
     'srv extern \<Rightarrow> ('bs, 'cs) client \<Rightarrow> ('bs, 'cs) client \<times> action list" where
  "after_iteration d fb fc w c =
     (let r1 = updateBasic d fb c;
          r2 = updateCore d fc (fst (snd r1));
          errs = Append (Append [] (fst r1)) (fst r2)
      in (fst (snd r2),
          snd (snd r1) @ snd (snd r2) @ (if errs = [] then [] else [LogPrintf errs]) @
          [Sleep (Int63n (5 * Second) (Int63 w))]))"

text \<open>
  The whole trace of a call of \<open>Watch\<close> that registered channel \<open>n\<close>, and how much of
  it the call has done at each program point.
\<close>

definition watch_trace :: "nat \<Rightarrow> action list" where
  "watch_trace n =
     [MakeChan 1, AppendWatcher n, WaitedBasic, WaitedCore, Callback, Go (GoWatcher n)]"

fun progress :: "pc \<Rightarrow> nat" where
  "progress AtRegister = 0"
| "progress AtWaitBasic = 2"
| "progress AtWaitCore = 3"
| "progress AtCallback = 4"
| "progress AtSpawn = 5"
| "progress AtReturn = 6"

text \<open>The program points after the registration and before the callback has run.\<close>

fun before_callback :: "pc \<Rightarrow> bool" where
  "before_callback AtWaitBasic = True"
| "before_callback AtWaitCore = True"
| "before_callback AtCallback = True"
| "before_callback p = False"

text \<open>Channel \<open>n\<close> is in the registry, with capacity 1.\<close>

definition registered :: "nat \<Rightarrow> ('bs, 'cs) client \<Rightarrow> bool" where
  "registered n c \<longleftrightarrow> n < length (watchers c) \<and> cap (watchers c ! n) = 1"

text \<open>The invariant of a call of \<open>Watch\<close> under any schedule.\<close>

definition watch_inv :: "watch_call \<times> ('bs, 'cs) client \<Rightarrow> bool" where
  "watch_inv tc =
     (case notify (fst tc) of
        None \<Rightarrow> pc (fst tc) = AtRegister \<and> trace (fst tc) = []
      | Some n \<Rightarrow>
          pc (fst tc) \<noteq> AtRegister \<and>
          trace (fst tc) = take (progress (pc (fst tc))) (watch_trace n) \<and>
          (before_callback (pc (fst tc)) \<longrightarrow> registered n (snd tc)))"

text \<open>
  The client after a list of steps of the other goroutines, and the registry in which
  every channel has capacity 1, holds at most one element, and is empty when its
  receiver is parked.
\<close>

fun steps ::
  "('bs, 'b, 'cs, 'c, 'srv) deps \<Rightarrow> ('b, 'c) other list \<Rightarrow> ('bs, 'cs) client \<Rightarrow>
     ('bs, 'cs) client" where
  "steps d [] c = c"
| "steps d (a # rest) c = steps d rest (other_step d a c)"

definition single_slot :: "chan list \<Rightarrow> bool" where
  "single_slot ws \<longleftrightarrow>
     (\<forall>ch \<in> set ws. cap ch = 1 \<and> buffered ch \<le> 1 \<and> (parked ch \<longrightarrow> buffered ch = 0))"

text \<open>
  The clients and worlds of the examples: the default client of a process in client
  mode, a world whose basic fetch fails, and a world whose fetches both succeed.
\<close>

definition example_client :: "(string store, string store) client" where
  "example_client =
     defaultClient (fst (init example_deps
       (Map.empty(''CONFIGURATION_MODE'' \<mapsto> ''client'')) (''/usr/bin/frontend'', None) None))"

definition world_basic_down :: "server extern" where
  "world_basic_down =
     \<lparr>globalServer = None,
      ConfigurationBasicRawJSON = ([], Some (Err ''connection refused'')),
      ConfigurationCoreRawJSON = (''{}'', None),
      Int63 = 7000001234\<rparr>"

definition world_up :: "server extern" where
  "world_up =
     \<lparr>globalServer = None,
      ConfigurationBasicRawJSON = (''{}'', None),
      ConfigurationCoreRawJSON = (''{}'', None),
      Int63 = 9223372033854775807\<rparr>"

definition example_schedule :: "(string, string) turn list" where
  "example_schedule =
     [Self, Self, Other (CalledMockBasic (Some ''mocked'')), Self, Self,
      Other (RefreshedCore (''{}'', None)), Self, Self, Self]"

text \<open>
  A client whose watcher is parked: the call of \<open>Watch\<close> of the example schedule has
  returned, its goroutine has received the notification that was pending and has come
  back to its receive, on an empty buffer. And a client with three watchers, the first
  parked, the second with a pending notification, the third with an empty buffer.
\<close>

definition parked_watcher_client :: "(string store, string store) client" where
  "parked_watcher_client =
     steps example_deps [Received 0, Received 0]
       (snd (Watch example_deps (\<lambda>c. c) example_schedule example_client))"

definition three_watchers_client :: "(string store, string store) client" where
  "three_watchers_client =
     steps example_deps
       [Registered, Registered, RefreshedBasic (''{}'', None), Received 2, Received 0]
       parked_watcher_client"

section \<open>Properties\<close>

subsection \<open>Helper lemmas\<close>

lemma notify_each_map: "notify_each ws = map try_send ws"
  by (induction ws) simp_all

lemma cap_try_send: "cap (try_send ch) = cap ch"
  by (simp add: try_send_def)

lemma cap_receive: "cap (receive ch) = cap ch"
  by (simp add: receive_def)

lemma sleeps_append: "sleeps (xs @ ys) = sleeps xs @ sleeps ys"
  by (induction xs rule: sleeps.induct) simp_all

lemma fetches_append: "fetches (xs @ ys) = fetches xs @ fetches ys"
  by (induction xs rule: fetches.induct) simp_all

lemma Append_non_nil: "Append (Append [] e1) e2 = non_nil [e1, e2]"
  by (cases e1; cases e2) (simp_all add: Append_def)

lemma non_nil_empty: "non_nil [e1, e2] = [] \<longleftrightarrow> e1 = None \<and> e2 = None"
  by (cases e1; cases e2) simp_all

text \<open>An update of one category leaves the fetchers and the other store as they are.\<close>

lemma updateBasic_frame:
  "basicFetcher (fst (snd (updateBasic d r c))) = basicFetcher c"
  "coreFetcher (fst (snd (updateBasic d r c))) = coreFetcher c"
  "coreStore (fst (snd (updateBasic d r c))) = coreStore c"
  by (auto simp: updateBasic_def notifyWatchers_def split: prod.splits option.splits)

lemma updateCore_frame:
  "basicFetcher (fst (snd (updateCore d r c))) = basicFetcher c"
  "coreFetcher (fst (snd (updateCore d r c))) = coreFetcher c"
  "basicStore (fst (snd (updateCore d r c))) = basicStore c"
  by (auto simp: updateCore_def notifyWatchers_def split: prod.splits option.splits)

lemma updateBasic_trace:
  "sleeps (snd (snd (updateBasic d r c))) = []"
  "fetches (snd (snd (updateBasic d r c))) = [FetchBasic]"
  "\<forall>a \<in> set (snd (snd (updateBasic d r c))). \<not> fatal a"
  by (auto simp: updateBasic_def split: prod.splits option.splits)

lemma updateCore_trace:
  "sleeps (snd (snd (updateCore d r c))) = []"
  "fetches (snd (snd (updateCore d r c))) = [FetchCore]"
  "\<forall>a \<in> set (snd (snd (updateCore d r c))). \<not> fatal a"
  by (auto simp: updateCore_def split: prod.splits option.splits)

lemma iteration_returns:
  assumes "FetchBasicConfig d w (basicFetcher c) = Returns fb"
    and "FetchCoreConfig d w (coreFetcher c) = Returns fc"
  shows "iteration d w c = Returns (after_iteration d fb fc w c)"
proof -
  obtain e1 c1 t1 where r1: "updateBasic d fb c = (e1, c1, t1)"
    by (cases "updateBasic d fb c") auto
  have "coreFetcher c1 = coreFetcher c"
    using updateBasic_frame(2) [of d fb c] r1 by simp
  then have f2: "FetchCoreConfig d w (coreFetcher c1) = Returns fc"
    using assms(2) by simp
  obtain e2 c2 t2 where r2: "updateCore d fc c1 = (e2, c2, t2)"
    by (cases "updateCore d fc c1") auto
  show ?thesis
    using assms(1) f2 r1 r2
    by (simp add: iteration_def fetchAndUpdateBasic_def fetchAndUpdateCore_def
        after_iteration_def Let_def ErrorOrNil_def)
qed

lemma after_iteration_frame:
  "basicFetcher (fst (after_iteration d fb fc w c)) = basicFetcher c"
  "coreFetcher (fst (after_iteration d fb fc w c)) = coreFetcher c"
  by (simp_all add: after_iteration_def Let_def updateBasic_frame updateCore_frame)

lemma after_iteration_trace:
  "sleeps (snd (after_iteration d fb fc w c)) = [Int63n (5 * Second) (Int63 w)]"
  "fetches (snd (after_iteration d fb fc w c)) = [FetchBasic, FetchCore]"
  "\<forall>a \<in> set (snd (after_iteration d fb fc w c)). \<not> fatal a"
  using updateBasic_trace [of d fb c]
    updateCore_trace [of d fc "fst (snd (updateBasic d fb c))"]
  by (auto simp: after_iteration_def Let_def sleeps_append fetches_append)

lemma fetchers_return_cases:
  assumes "fetchers_return d w c"
  obtains fb fc where "FetchBasicConfig d w (basicFetcher c) = Returns fb"
    and "FetchCoreConfig d w (coreFetcher c) = Returns fc"
  using assms unfolding fetchers_return_def
  by (cases "FetchBasicConfig d w (basicFetcher c)"; cases "FetchCoreConfig d w (coreFetcher c)")
    auto

lemma loop_runs:
  assumes "\<forall>w \<in> set ws. fetchers_return d w c"
  shows "\<exists>c' tr. continuouslyUpdate d ws c = Returns (c', tr) \<and>
           fetches tr = concat (map (\<lambda>w. [FetchBasic, FetchCore]) ws) \<and>
           sleeps tr = map (\<lambda>w. Int63n (5 * Second) (Int63 w)) ws \<and>
           (\<forall>a \<in> set tr. \<not> fatal a)"
  using assms
proof (induction ws arbitrary: c)
  case Nil
  then show ?case by simp
next
  case (Cons w ws)
  from Cons.prems have "fetchers_return d w c" by simp
  then obtain fb fc where fb: "FetchBasicConfig d w (basicFetcher c) = Returns fb"
    and fc: "FetchCoreConfig d w (coreFetcher c) = Returns fc"
    by (rule fetchers_return_cases)
  obtain c1 t1 where a: "after_iteration d fb fc w c = (c1, t1)"
    by (cases "after_iteration d fb fc w c") auto
  have it: "iteration d w c = Returns (c1, t1)"
    using iteration_returns [OF fb fc] a by simp
  have fr: "basicFetcher c1 = basicFetcher c \<and> coreFetcher c1 = coreFetcher c"
    using after_iteration_frame [of d fb fc w c] a by simp
  have "\<forall>w \<in> set ws. fetchers_return d w c1"
    using Cons.prems fr by (simp add: fetchers_return_def)
  from Cons.IH [OF this] obtain c2 t2 where
    l: "continuouslyUpdate d ws c1 = Returns (c2, t2)"
      "fetches t2 = concat (map (\<lambda>w. [FetchBasic, FetchCore]) ws)"
      "sleeps t2 = map (\<lambda>w. Int63n (5 * Second) (Int63 w)) ws"
      "\<forall>a \<in> set t2. \<not> fatal a"
    by blast
  have t1: "sleeps t1 = [Int63n (5 * Second) (Int63 w)]" "fetches t1 = [FetchBasic, FetchCore]"
    "\<forall>a \<in> set t1. \<not> fatal a"
    using after_iteration_trace [of d fb fc w c] a by simp_all
  show ?case
    using it l t1 by (auto simp: sleeps_append fetches_append)
qed

text \<open>
  The loop and its iterations: an iteration panics exactly when a fetcher does, it
  leaves the fetchers of the client as they are, and the loop over a list of worlds is
  the loop over its first part followed by the loop over the rest.
\<close>

lemma iteration_panics: "iteration d w c = Panics \<longleftrightarrow> \<not> fetchers_return d w c"
proof (cases "FetchBasicConfig d w (basicFetcher c)")
  case Panics
  then show ?thesis
    by (simp add: iteration_def fetchAndUpdateBasic_def fetchers_return_def)
next
  case (Returns fb)
  obtain e1 c1 t1 where r1: "updateBasic d fb c = (e1, c1, t1)"
    by (cases "updateBasic d fb c") auto
  have f: "coreFetcher c1 = coreFetcher c"
    using updateBasic_frame(2) [of d fb c] r1 by simp
  show ?thesis
  proof (cases "FetchCoreConfig d w (coreFetcher c)")
    case Panics
    then show ?thesis
      using Returns r1 f
      by (simp add: iteration_def fetchAndUpdateBasic_def fetchAndUpdateCore_def
          fetchers_return_def)
  next
    case (Returns fc)
    have "iteration d w c = Returns (after_iteration d fb fc w c)"
      using iteration_returns [OF \<open>FetchBasicConfig d w (basicFetcher c) = Returns fb\<close> Returns] .
    then show ?thesis
      using Returns \<open>FetchBasicConfig d w (basicFetcher c) = Returns fb\<close>
      by (simp add: fetchers_return_def)
  qed
qed

lemma iteration_frame:
  assumes "iteration d w c = Returns (c1, t1)"
  shows "basicFetcher c1 = basicFetcher c \<and> coreFetcher c1 = coreFetcher c"
proof -
  have "fetchers_return d w c"
    using assms iteration_panics [of d w c] by auto
  then obtain fb fc where fb: "FetchBasicConfig d w (basicFetcher c) = Returns fb"
    and fc: "FetchCoreConfig d w (coreFetcher c) = Returns fc"
    by (rule fetchers_return_cases)
  have "after_iteration d fb fc w c = (c1, t1)"
    using iteration_returns [OF fb fc] assms by simp
  then show ?thesis
    using after_iteration_frame [of d fb fc w c] by simp
qed

lemma loop_frame:
  "continuouslyUpdate d ws c = Returns (c1, t1) \<Longrightarrow>
     basicFetcher c1 = basicFetcher c \<and> coreFetcher c1 = coreFetcher c"
proof (induction ws arbitrary: c c1 t1)
  case Nil
  then show ?case by simp
next
  case (Cons w ws)
  from Cons.prems obtain c0 t0 where i: "iteration d w c = Returns (c0, t0)"
    by (cases "iteration d w c") auto
  from Cons.prems i obtain t2 where l: "continuouslyUpdate d ws c0 = Returns (c1, t2)"
    by (cases "continuouslyUpdate d ws c0") auto
  show ?case
    using Cons.IH [OF l] iteration_frame [OF i] by simp
qed

lemma loop_append:
  "continuouslyUpdate d (ws @ ws') c =
     (case continuouslyUpdate d ws c of
        Panics \<Rightarrow> Panics
      | Returns (c1, t1) \<Rightarrow>
          (case continuouslyUpdate d ws' c1 of
             Panics \<Rightarrow> Panics
           | Returns (c2, t2) \<Rightarrow> Returns (c2, t1 @ t2)))"
proof (induction ws arbitrary: c)
  case Nil
  show ?case
    by (cases "continuouslyUpdate d ws' c") auto
next
  case (Cons w ws)
  show ?case
  proof (cases "iteration d w c")
    case Panics
    then show ?thesis by simp
  next
    case (Returns r)
    obtain c0 t0 where r: "r = (c0, t0)" by (cases r) auto
    show ?thesis
    proof (cases "continuouslyUpdate d ws c0")
      case Panics
      then show ?thesis
        using Returns r Cons.IH [of c0] by simp
    next
      case inner: (Returns r1)
      obtain c1 t1 where r1: "r1 = (c1, t1)" by (cases r1) auto
      show ?thesis
      proof (cases "continuouslyUpdate d ws' c1")
        case Panics
        then show ?thesis
          using Returns r inner r1 Cons.IH [of c0] by simp
      next
        case last: (Returns r2)
        obtain c2 t2 where r2: "r2 = (c2, t2)" by (cases r2) auto
        show ?thesis
          using Returns r inner r1 last r2 Cons.IH [of c0] by simp
      qed
    qed
  qed
qed

lemma loop_snoc:
  "continuouslyUpdate d (ws @ [w]) c =
     (case continuouslyUpdate d ws c of
        Panics \<Rightarrow> Panics
      | Returns (c1, t1) \<Rightarrow>
          (case iteration d w c1 of
             Panics \<Rightarrow> Panics
           | Returns (c2, t2) \<Rightarrow> Returns (c2, t1 @ t2)))"
proof -
  have one: "continuouslyUpdate d [w] c1 =
      (case iteration d w c1 of Panics \<Rightarrow> Panics | Returns (c2, t2) \<Rightarrow> Returns (c2, t2))" for c1
    by (cases "iteration d w c1") auto
  show ?thesis
  proof (cases "continuouslyUpdate d ws c")
    case Panics
    then show ?thesis by (simp add: loop_append)
  next
    case (Returns r)
    obtain c1 t1 where r: "r = (c1, t1)" by (cases r) auto
    show ?thesis
    proof (cases "iteration d w c1")
      case Panics
      then show ?thesis
        using Returns r loop_append [of d ws "[w]" c] by simp
    next
      case it: (Returns r2)
      obtain c2 t2 where r2: "r2 = (c2, t2)" by (cases r2) auto
      show ?thesis
        using Returns r it r2 loop_append [of d ws "[w]" c] by simp
    qed
  qed
qed

lemma loop_panics:
  "continuouslyUpdate d ws c = Panics \<longleftrightarrow> (\<exists>w \<in> set ws. \<not> fetchers_return d w c)"
proof (induction ws arbitrary: c)
  case Nil
  show ?case by simp
next
  case (Cons w ws)
  show ?case
  proof (cases "iteration d w c")
    case Panics
    then show ?thesis
      using iteration_panics [of d w c] by simp
  next
    case (Returns r)
    obtain c0 t0 where r: "r = (c0, t0)" by (cases r) auto
    have fr: "\<And>w'. fetchers_return d w' c0 = fetchers_return d w' c"
      using iteration_frame [of d w c c0 t0] Returns r by (simp add: fetchers_return_def)
    have here: "fetchers_return d w c"
      using Returns iteration_panics [of d w c] by simp
    have "continuouslyUpdate d (w # ws) c = Panics \<longleftrightarrow> continuouslyUpdate d ws c0 = Panics"
      using Returns r by (cases "continuouslyUpdate d ws c0") auto
    also have "\<dots> \<longleftrightarrow> (\<exists>w' \<in> set ws. \<not> fetchers_return d w' c)"
      using Cons.IH [of c0] fr by simp
    also have "\<dots> \<longleftrightarrow> (\<exists>w' \<in> set (w # ws). \<not> fetchers_return d w' c)"
      using here by simp
    finally show ?thesis .
  qed
qed

lemma loop_every_iteration:
  assumes "\<forall>w' \<in> set (pre @ w # post). fetchers_return d w' c"
  shows "\<exists>c1 t1 fb fc e1 cb tb e2 c2 t2 c3 t3.
      continuouslyUpdate d pre c = Returns (c1, t1) \<and>
      FetchBasicConfig d w (basicFetcher c1) = Returns fb \<and>
      updateBasic d fb c1 = (e1, cb, tb) \<and>
      FetchCoreConfig d w (coreFetcher cb) = Returns fc \<and>
      updateCore d fc cb = (e2, c2, t2) \<and>
      iteration d w c1 =
        Returns (c2,
          tb @ t2 @ (if e1 = None \<and> e2 = None then [] else [LogPrintf (non_nil [e1, e2])]) @
          [Sleep (Int63n (5 * Second) (Int63 w))]) \<and>
      continuouslyUpdate d post c2 = Returns (c3, t3) \<and>
      continuouslyUpdate d (pre @ w # post) c =
        Returns (c3,
          t1 @
          (tb @ t2 @ (if e1 = None \<and> e2 = None then [] else [LogPrintf (non_nil [e1, e2])]) @
           [Sleep (Int63n (5 * Second) (Int63 w))]) @
          t3)"
proof -
  have "continuouslyUpdate d (pre @ w # post) c \<noteq> Panics"
    using assms loop_panics [of d "pre @ w # post" c] by blast
  then obtain c3 tr where whole: "continuouslyUpdate d (pre @ w # post) c = Returns (c3, tr)"
    by (cases "continuouslyUpdate d (pre @ w # post) c") auto
  have "continuouslyUpdate d pre c \<noteq> Panics"
    using assms loop_panics [of d pre c] by auto
  then obtain c1 t1 where p: "continuouslyUpdate d pre c = Returns (c1, t1)"
    by (cases "continuouslyUpdate d pre c") auto
  have f1: "basicFetcher c1 = basicFetcher c \<and> coreFetcher c1 = coreFetcher c"
    using loop_frame [OF p] .
  have "fetchers_return d w c1"
    using assms f1 by (simp add: fetchers_return_def)
  then obtain fb fc where fb: "FetchBasicConfig d w (basicFetcher c1) = Returns fb"
    and fc: "FetchCoreConfig d w (coreFetcher c1) = Returns fc"
    by (rule fetchers_return_cases)
  obtain e1 cb tb where r1: "updateBasic d fb c1 = (e1, cb, tb)"
    by (cases "updateBasic d fb c1") auto
  obtain e2 c2 t2 where r2: "updateCore d fc cb = (e2, c2, t2)"
    by (cases "updateCore d fc cb") auto
  have fcb: "coreFetcher cb = coreFetcher c1"
    using updateBasic_frame(2) [of d fb c1] r1 by simp
  let ?ti = "tb @ t2 @ (if e1 = None \<and> e2 = None then [] else [LogPrintf (non_nil [e1, e2])]) @
          [Sleep (Int63n (5 * Second) (Int63 w))]"
  have "iteration d w c1 = Returns (after_iteration d fb fc w c1)"
    using iteration_returns [OF fb fc] .
  then have i: "iteration d w c1 = Returns (c2, ?ti)"
    using r1 r2 non_nil_empty [of e1 e2]
    by (simp add: after_iteration_def Let_def Append_non_nil)
  have f2: "basicFetcher c2 = basicFetcher c \<and> coreFetcher c2 = coreFetcher c"
    using iteration_frame [OF i] f1 by simp
  have "\<forall>w' \<in> set post. fetchers_return d w' c2"
    using assms f2 by (simp add: fetchers_return_def)
  then have "continuouslyUpdate d post c2 \<noteq> Panics"
    using loop_panics [of d post c2] by blast
  then obtain c3' t3 where q: "continuouslyUpdate d post c2 = Returns (c3', t3)"
    by (cases "continuouslyUpdate d post c2") auto
  have wq: "continuouslyUpdate d (w # post) c1 = Returns (c3', ?ti @ t3)"
    using i q by simp
  have "continuouslyUpdate d (pre @ w # post) c = Returns (c3', t1 @ ?ti @ t3)"
    using loop_append [of d pre "w # post" c] p wq by simp
  moreover have "FetchCoreConfig d w (coreFetcher cb) = Returns fc"
    using fc fcb by simp
  ultimately show ?thesis
    using p fb r1 r2 i q by blast
qed

text \<open>The registered channel stays in the registry, whatever the other goroutines do.\<close>

lemma registered_notifyWatchers: "registered n c \<Longrightarrow> registered n (notifyWatchers c)"
  by (simp add: registered_def notifyWatchers_def notify_each_map cap_try_send)

lemma registered_store_update:
  "registered n (c\<lparr>basicStore := s\<rparr>) = registered n c"
  "registered n (c\<lparr>coreStore := s'\<rparr>) = registered n c"
  by (simp_all add: registered_def)

lemma registered_other:
  assumes "registered n c"
  shows "registered n (other_step d a c)"
proof (cases a)
  case (RefreshedBasic r)
  then show ?thesis using assms
    by (auto simp: updateBasic_def registered_store_update registered_notifyWatchers
        split: prod.splits option.splits)
next
  case (RefreshedCore r)
  then show ?thesis using assms
    by (auto simp: updateCore_def registered_store_update registered_notifyWatchers
        split: prod.splits option.splits)
next
  case (CalledMockBasic m)
  then show ?thesis using assms by (simp add: MockBasic_def registered_def)
next
  case (CalledMockCore m)
  then show ?thesis using assms by (simp add: MockCore_def registered_def)
next
  case Registered
  then show ?thesis using assms by (simp add: registered_def nth_append)
next
  case (Received i)
  then show ?thesis using assms
    by (auto simp: registered_def nth_list_update cap_receive)
qed

lemma watch_inv_other: "watch_inv (t, c) \<Longrightarrow> watch_inv (t, other_step d a c)"
  by (auto simp: watch_inv_def registered_other split: option.splits)

lemma watch_inv_step: "watch_inv tc \<Longrightarrow> watch_inv (Watch_step d f tc)"
  by (cases tc; cases "pc (fst tc)")
    (auto simp: watch_inv_def watch_trace_def registered_def make_chan_def nth_append
      split: option.splits)

lemma watch_inv_run: "watch_inv tc \<Longrightarrow> watch_inv (Watch_run d f sched tc)"
proof (induction sched arbitrary: tc)
  case Nil
  then show ?case by simp
next
  case (Cons x sched)
  show ?case
  proof (cases x)
    case Self
    then show ?thesis using Cons by (simp add: watch_inv_step)
  next
    case (Other a)
    then show ?thesis using Cons by (cases tc) (simp add: watch_inv_other)
  qed
qed

lemma watch_inv_Watch: "watch_inv (Watch d f sched c)"
  unfolding Watch_def
  by (rule watch_inv_run) (simp add: watch_inv_def watch_start_def)

text \<open>
  A call of \<open>Watch\<close> under a schedule: up to its next step that can be taken, only the
  other goroutines change the client.
\<close>

lemma Watch_run_append:
  "Watch_run d f (a @ b) tc = Watch_run d f b (Watch_run d f a tc)"
  by (induction a arbitrary: tc rule: others.induct) simp_all

lemma blocked_step: "\<not> enabled d (pc t) c \<Longrightarrow> Watch_step d f (t, c) = (t, c)"
  by (cases "pc t") simp_all

lemma enabled_step: "enabled d (pc t) c \<Longrightarrow> pc (fst (Watch_step d f (t, c))) \<noteq> pc t"
  by (cases "pc t") simp_all

lemma returned_run: "pc t = AtReturn \<Longrightarrow> Watch_run d f sched (t, c) = (t, steps d (others sched) c)"
  by (induction sched arbitrary: c rule: others.induct) simp_all

lemma phase:
  assumes "pc (fst (Watch_run d f sched (t, c))) \<noteq> pc t"
  shows "\<exists>s1 rest. sched = s1 @ Self # rest \<and>
     enabled d (pc t) (steps d (others s1) c) \<and>
     (\<forall>p q. s1 = p @ Self # q \<longrightarrow> \<not> enabled d (pc t) (steps d (others p) c)) \<and>
     Watch_run d f sched (t, c) = Watch_run d f rest (Watch_step d f (t, steps d (others s1) c))"
  using assms
proof (induction sched arbitrary: c rule: others.induct)
  case 1
  then show ?case by simp
next
  case (2 sched)
  show ?case
  proof (cases "enabled d (pc t) c")
    case True
    have "Self # sched = [] @ Self # sched \<and>
     enabled d (pc t) (steps d (others []) c) \<and>
     (\<forall>p q. [] = p @ Self # q \<longrightarrow> \<not> enabled d (pc t) (steps d (others p) c)) \<and>
     Watch_run d f (Self # sched) (t, c) =
       Watch_run d f sched (Watch_step d f (t, steps d (others []) c))"
      using True by simp
    then show ?thesis by blast
  next
    case False
    then have st: "Watch_step d f (t, c) = (t, c)"
      by (rule blocked_step)
    then have "pc (fst (Watch_run d f sched (t, c))) \<noteq> pc t"
      using "2.prems" by simp
    from "2.IH" [OF this] obtain s1 rest where r: "sched = s1 @ Self # rest"
      "enabled d (pc t) (steps d (others s1) c)"
      "\<forall>p q. s1 = p @ Self # q \<longrightarrow> \<not> enabled d (pc t) (steps d (others p) c)"
      "Watch_run d f sched (t, c) = Watch_run d f rest (Watch_step d f (t, steps d (others s1) c))"
      by blast
    have b: "\<forall>p q. Self # s1 = p @ Self # q \<longrightarrow> \<not> enabled d (pc t) (steps d (others p) c)"
    proof (intro allI impI)
      fix p q assume e: "Self # s1 = p @ Self # q"
      show "\<not> enabled d (pc t) (steps d (others p) c)"
      proof (cases p)
        case Nil
        then show ?thesis using False by simp
      next
        case (Cons x p')
        then have "x = Self" "s1 = p' @ Self # q" using e by simp_all
        then show ?thesis using r(3) Cons by simp
      qed
    qed
    have "Self # sched = (Self # s1) @ Self # rest \<and>
     enabled d (pc t) (steps d (others (Self # s1)) c) \<and>
     (\<forall>p q. Self # s1 = p @ Self # q \<longrightarrow> \<not> enabled d (pc t) (steps d (others p) c)) \<and>
     Watch_run d f (Self # sched) (t, c) =
       Watch_run d f rest (Watch_step d f (t, steps d (others (Self # s1)) c))"
      using r b st by simp
    then show ?thesis by blast
  qed
next
  case (3 a sched)
  have "pc (fst (Watch_run d f sched (t, other_step d a c))) \<noteq> pc t"
    using "3.prems" by simp
  from "3.IH" [OF this] obtain s1 rest where r: "sched = s1 @ Self # rest"
    "enabled d (pc t) (steps d (others s1) (other_step d a c))"
    "\<forall>p q. s1 = p @ Self # q \<longrightarrow> \<not> enabled d (pc t) (steps d (others p) (other_step d a c))"
    "Watch_run d f sched (t, other_step d a c) =
       Watch_run d f rest (Watch_step d f (t, steps d (others s1) (other_step d a c)))"
    by blast
  have b: "\<forall>p q. Other a # s1 = p @ Self # q \<longrightarrow> \<not> enabled d (pc t) (steps d (others p) c)"
  proof (intro allI impI)
    fix p q assume e: "Other a # s1 = p @ Self # q"
    show "\<not> enabled d (pc t) (steps d (others p) c)"
    proof (cases p)
      case Nil
      then show ?thesis using e by simp
    next
      case (Cons x p')
      then have "x = Other a" "s1 = p' @ Self # q" using e by simp_all
      then show ?thesis using r(3) Cons by simp
    qed
  qed
  have "Other a # sched = (Other a # s1) @ Self # rest \<and>
     enabled d (pc t) (steps d (others (Other a # s1)) c) \<and>
     (\<forall>p q. Other a # s1 = p @ Self # q \<longrightarrow> \<not> enabled d (pc t) (steps d (others p) c)) \<and>
     Watch_run d f (Other a # sched) (t, c) =
       Watch_run d f rest (Watch_step d f (t, steps d (others (Other a # s1)) c))"
    using r b by simp
  then show ?case by blast
qed

lemma no_self: "(\<forall>p q. s = p @ Self # q \<longrightarrow> False) \<Longrightarrow> Self \<notin> set s"
  by (metis split_list)


lemma returned_decomposition:
  assumes "pc (fst (Watch d f sched c)) = AtReturn"
  shows "\<exists>s0 s1 s2 s3 s4 s5 c0 c1 c2 c3 c4.
      sched = s0 @ Self # s1 @ Self # s2 @ Self # s3 @ Self # s4 @ Self # s5 \<and>
      Self \<notin> set s0 \<and> Self \<notin> set s3 \<and> Self \<notin> set s4 \<and>
      c0 = (steps d (others s0) c)
             \<lparr>watchers := watchers (steps d (others s0) c) @ [make_chan 1]\<rparr> \<and>
      c1 = steps d (others s1) c0 \<and>
      Initialized (basic d) (basicStore c1) \<and>
      (\<forall>p q. s1 = p @ Self # q \<longrightarrow>
         \<not> Initialized (basic d) (basicStore (steps d (others p) c0))) \<and>
      c2 = steps d (others s2) c1 \<and>
      Initialized (core d) (coreStore c2) \<and>
      (\<forall>p q. s2 = p @ Self # q \<longrightarrow>
         \<not> Initialized (core d) (coreStore (steps d (others p) c1))) \<and>
      c3 = steps d (others s3) c2 \<and>
      c4 = steps d (others s4) (f c3) \<and>
      Watch d f sched c =
        (\<lparr>pc = AtReturn, notify = Some (length (watchers (steps d (others s0) c))),
          trace = watch_trace (length (watchers (steps d (others s0) c)))\<rparr>,
         steps d (others s5) c4)"
proof -
  let ?final = "Watch_run d f sched (watch_start, c)"
  have fin: "pc (fst ?final) = AtReturn"
    using assms by (simp add: Watch_def)
  have "pc (fst ?final) \<noteq> pc watch_start"
    using fin by (simp add: watch_start_def)
  from phase [OF this] obtain s0 r0 where p0: "sched = s0 @ Self # r0"
    "\<forall>p q. s0 = p @ Self # q \<longrightarrow> \<not> enabled d (pc watch_start) (steps d (others p) c)"
    "?final = Watch_run d f r0 (Watch_step d f (watch_start, steps d (others s0) c))"
    by blast
  have n0: "Self \<notin> set s0"
    using p0(2) by (intro no_self) (simp add: watch_start_def)
  define b0 where "b0 = steps d (others s0) c"
  define n where "n = length (watchers b0)"
  define c0 where "c0 = b0\<lparr>watchers := watchers b0 @ [make_chan 1]\<rparr>"
  define t1 where "t1 = \<lparr>pc = AtWaitBasic, notify = Some n,
    trace = [MakeChan 1, AppendWatcher n]\<rparr>"
  have "Watch_step d f (watch_start, b0) = (t1, c0)"
    by (simp add: watch_start_def t1_def c0_def n_def)
  then have f1: "?final = Watch_run d f r0 (t1, c0)"
    using p0(3) by (simp add: b0_def)
  have "pc (fst (Watch_run d f r0 (t1, c0))) \<noteq> pc t1"
    using fin f1 by (simp add: t1_def)
  from phase [OF this] obtain s1 r1 where p1: "r0 = s1 @ Self # r1"
    "enabled d (pc t1) (steps d (others s1) c0)"
    "\<forall>p q. s1 = p @ Self # q \<longrightarrow> \<not> enabled d (pc t1) (steps d (others p) c0)"
    "Watch_run d f r0 (t1, c0) = Watch_run d f r1 (Watch_step d f (t1, steps d (others s1) c0))"
    by blast
  define c1 where "c1 = steps d (others s1) c0"
  define t2 where "t2 = \<lparr>pc = AtWaitCore, notify = Some n,
    trace = [MakeChan 1, AppendWatcher n, WaitedBasic]\<rparr>"
  have i1: "Initialized (basic d) (basicStore c1)"
    using p1(2) by (simp add: t1_def c1_def)
  have w1: "\<forall>p q. s1 = p @ Self # q \<longrightarrow>
      \<not> Initialized (basic d) (basicStore (steps d (others p) c0))"
    using p1(3) by (simp add: t1_def)
  have "Watch_step d f (t1, c1) = (t2, c1)"
    using i1 by (simp add: t1_def t2_def)
  then have f2: "?final = Watch_run d f r1 (t2, c1)"
    using f1 p1(4) by (simp add: c1_def)
  have "pc (fst (Watch_run d f r1 (t2, c1))) \<noteq> pc t2"
    using fin f2 by (simp add: t2_def)
  from phase [OF this] obtain s2 r2 where p2: "r1 = s2 @ Self # r2"
    "enabled d (pc t2) (steps d (others s2) c1)"
    "\<forall>p q. s2 = p @ Self # q \<longrightarrow> \<not> enabled d (pc t2) (steps d (others p) c1)"
    "Watch_run d f r1 (t2, c1) = Watch_run d f r2 (Watch_step d f (t2, steps d (others s2) c1))"
    by blast
  define c2 where "c2 = steps d (others s2) c1"
  define t3 where "t3 = \<lparr>pc = AtCallback, notify = Some n,
    trace = [MakeChan 1, AppendWatcher n, WaitedBasic, WaitedCore]\<rparr>"
  have i2: "Initialized (core d) (coreStore c2)"
    using p2(2) by (simp add: t2_def c2_def)
  have w2: "\<forall>p q. s2 = p @ Self # q \<longrightarrow>
      \<not> Initialized (core d) (coreStore (steps d (others p) c1))"
    using p2(3) by (simp add: t2_def)
  have "Watch_step d f (t2, c2) = (t3, c2)"
    using i2 by (simp add: t2_def t3_def)
  then have f3: "?final = Watch_run d f r2 (t3, c2)"
    using f2 p2(4) by (simp add: c2_def)
  have "pc (fst (Watch_run d f r2 (t3, c2))) \<noteq> pc t3"
    using fin f3 by (simp add: t3_def)
  from phase [OF this] obtain s3 r3 where p3: "r2 = s3 @ Self # r3"
    "\<forall>p q. s3 = p @ Self # q \<longrightarrow> \<not> enabled d (pc t3) (steps d (others p) c2)"
    "Watch_run d f r2 (t3, c2) = Watch_run d f r3 (Watch_step d f (t3, steps d (others s3) c2))"
    by blast
  have n3: "Self \<notin> set s3"
    using p3(2) by (intro no_self) (simp add: t3_def)
  define c3 where "c3 = steps d (others s3) c2"
  define t4 where "t4 = \<lparr>pc = AtSpawn, notify = Some n,
    trace = [MakeChan 1, AppendWatcher n, WaitedBasic, WaitedCore, Callback]\<rparr>"
  have "Watch_step d f (t3, c3) = (t4, f c3)"
    by (simp add: t3_def t4_def)
  then have f4: "?final = Watch_run d f r3 (t4, f c3)"
    using f3 p3(3) by (simp add: c3_def)
  have "pc (fst (Watch_run d f r3 (t4, f c3))) \<noteq> pc t4"
    using fin f4 by (simp add: t4_def)
  from phase [OF this] obtain s4 r4 where p4: "r3 = s4 @ Self # r4"
    "\<forall>p q. s4 = p @ Self # q \<longrightarrow> \<not> enabled d (pc t4) (steps d (others p) (f c3))"
    "Watch_run d f r3 (t4, f c3) =
       Watch_run d f r4 (Watch_step d f (t4, steps d (others s4) (f c3)))"
    by blast
  have n4: "Self \<notin> set s4"
    using p4(2) by (intro no_self) (simp add: t4_def)
  define c4 where "c4 = steps d (others s4) (f c3)"
  define t5 where "t5 = \<lparr>pc = AtReturn, notify = Some n, trace = watch_trace n\<rparr>"
  have "Watch_step d f (t4, c4) = (t5, c4)"
    by (simp add: t4_def t5_def watch_trace_def)
  then have "?final = Watch_run d f r4 (t5, c4)"
    using f4 p4(3) by (simp add: c4_def)
  then have f5: "?final = (t5, steps d (others r4) c4)"
    by (simp add: returned_run t5_def)
  have shape: "sched = s0 @ Self # s1 @ Self # s2 @ Self # s3 @ Self # s4 @ Self # r4"
    using p0(1) p1(1) p2(1) p3(1) p4(1) by simp
  have res: "Watch d f sched c =
        (\<lparr>pc = AtReturn, notify = Some (length (watchers (steps d (others s0) c))),
          trace = watch_trace (length (watchers (steps d (others s0) c)))\<rparr>,
         steps d (others r4) c4)"
    using f5 by (simp add: Watch_def t5_def n_def b0_def)
  have e0: "c0 = (steps d (others s0) c)
             \<lparr>watchers := watchers (steps d (others s0) c) @ [make_chan 1]\<rparr>"
    by (simp add: c0_def b0_def)
  show ?thesis
    using shape n0 n3 n4 e0 c1_def i1 w1 c2_def i2 w2 c3_def c4_def res by blast
qed

lemma Watch_turn:
  assumes "Watch d f sched c = (t, c1)"
  shows "(\<forall>a. Watch d f (sched @ [Other a]) c = (t, other_step d a c1)) \<and>
    (pc t = AtRegister \<longrightarrow>
       Watch d f (sched @ [Self]) c =
         (\<lparr>pc = AtWaitBasic, notify = Some (length (watchers c1)),
           trace = [MakeChan 1, AppendWatcher (length (watchers c1))]\<rparr>,
          c1\<lparr>watchers := watchers c1 @ [make_chan 1]\<rparr>)) \<and>
    (pc t = AtWaitBasic \<longrightarrow>
       Watch d f (sched @ [Self]) c =
         (if Initialized (basic d) (basicStore c1)
          then (t\<lparr>pc := AtWaitCore, trace := trace t @ [WaitedBasic]\<rparr>, c1)
          else (t, c1))) \<and>
    (pc t = AtWaitCore \<longrightarrow>
       Watch d f (sched @ [Self]) c =
         (if Initialized (core d) (coreStore c1)
          then (t\<lparr>pc := AtCallback, trace := trace t @ [WaitedCore]\<rparr>, c1)
          else (t, c1))) \<and>
    (pc t = AtCallback \<longrightarrow>
       Watch d f (sched @ [Self]) c =
         (t\<lparr>pc := AtSpawn, trace := trace t @ [Callback]\<rparr>, f c1)) \<and>
    (pc t = AtSpawn \<longrightarrow>
       (\<exists>n. notify t = Some n \<and>
          Watch d f (sched @ [Self]) c =
            (t\<lparr>pc := AtReturn, trace := trace t @ [Go (GoWatcher n)]\<rparr>, c1))) \<and>
    (pc t = AtReturn \<longrightarrow> Watch d f (sched @ [Self]) c = (t, c1))"
proof -
  have inv: "watch_inv (t, c1)"
    using watch_inv_Watch [of d f sched c] assms by simp
  have other: "Watch d f (sched @ [Other a]) c = (t, other_step d a c1)" for a
    using assms by (simp add: Watch_def Watch_run_append)
  have self: "Watch d f (sched @ [Self]) c = Watch_step d f (t, c1)"
    using assms by (simp add: Watch_def Watch_run_append)
  have reg: "pc t = AtRegister \<longrightarrow> t = watch_start"
    using inv by (cases "notify t") (auto simp: watch_inv_def watch_start_def)
  have spawn: "pc t = AtSpawn \<longrightarrow> (\<exists>n. notify t = Some n)"
    using inv by (cases "notify t") (auto simp: watch_inv_def)
  show ?thesis
    using other self reg spawn by (cases "pc t") (auto simp: watch_start_def)
qed

text \<open>
  Every registry reached from \<open>init\<close> by steps of the model has channels of capacity 1
  that hold at most one element.
\<close>

lemma single_slot_notify: "single_slot ws \<Longrightarrow> single_slot (notify_each ws)"
  by (auto simp: single_slot_def notify_each_map try_send_def)

lemma single_slot_other:
  assumes "single_slot (watchers c)"
  shows "single_slot (watchers (other_step d a c))"
proof (cases a)
  case (RefreshedBasic r)
  then show ?thesis using assms single_slot_notify [of "watchers c"]
    by (auto simp: updateBasic_def notifyWatchers_def split: prod.splits option.splits)
next
  case (RefreshedCore r)
  then show ?thesis using assms single_slot_notify [of "watchers c"]
    by (auto simp: updateCore_def notifyWatchers_def split: prod.splits option.splits)
next
  case (CalledMockBasic m)
  then show ?thesis using assms by (simp add: MockBasic_def)
next
  case (CalledMockCore m)
  then show ?thesis using assms by (simp add: MockCore_def)
next
  case Registered
  then show ?thesis using assms by (simp add: single_slot_def make_chan_def)
next
  case (Received i)
  have "cap ch = 1 \<and> buffered ch \<le> 1 \<and> (parked ch \<longrightarrow> buffered ch = 0)"
    if "ch \<in> set ((watchers c)[i := receive (watchers c ! i)])" and "i < length (watchers c)" for ch
  proof -
    from that(1) have "ch \<in> insert (receive (watchers c ! i)) (set (watchers c))"
      using set_update_subset_insert by fastforce
    then show ?thesis
      using assms that(2) by (auto simp: single_slot_def receive_def)
  qed
  then show ?thesis using Received assms
    by (auto simp: single_slot_def)
qed

lemma single_slot_steps:
  "single_slot (watchers c) \<Longrightarrow> single_slot (watchers (steps d as c))"
  by (induction as arbitrary: c) (simp_all add: single_slot_other)

lemma init_watchers: "watchers (defaultClient (fst (init d env exe g))) = []"
  by (auto simp: init_def Let_def split: prod.splits option.splits)

lemma single_slot_reachable:
  "single_slot (watchers (steps d as (defaultClient (fst (init d env exe g)))))"
  by (rule single_slot_steps) (simp add: init_watchers single_slot_def)

lemma notified_pending:
  assumes "single_slot ws" and "i < length ws"
  shows "cap (notify_each ws ! i) = 1 \<and>
     (if parked (ws ! i)
      then \<not> parked (notify_each ws ! i) \<and> buffered (notify_each ws ! i) = 0
      else \<not> parked (notify_each ws ! i) \<and> buffered (notify_each ws ! i) = 1)"
proof -
  have "cap (ws ! i) = 1 \<and> buffered (ws ! i) \<le> 1 \<and> (parked (ws ! i) \<longrightarrow> buffered (ws ! i) = 0)"
    using assms by (simp add: single_slot_def)
  then show ?thesis
    using assms(2) by (auto simp: notify_each_map try_send_def)
qed

text \<open>Every residue has the same number of samples below a multiple of the modulus.\<close>

lemma residue_image:
  fixes n d q :: int
  assumes "0 < n" "0 \<le> d" "d < n"
  shows "{v. 0 \<le> v \<and> v < q * n \<and> v mod n = d} = (\<lambda>k. k * n + d) ` {0..<q}"
proof (intro set_eqI iffI)
  fix v assume "v \<in> {v. 0 \<le> v \<and> v < q * n \<and> v mod n = d}"
  then have v: "0 \<le> v" "v < q * n" "v mod n = d" by simp_all
  have e: "v = (v div n) * n + d"
    using v(3) by (metis div_mult_mod_eq)
  have "0 \<le> v div n"
    using v(1) assms(1) by (simp add: pos_imp_zdiv_nonneg_iff)
  moreover have "v div n < q"
  proof (rule ccontr)
    assume "\<not> v div n < q"
    then have "q * n \<le> (v div n) * n"
      using assms(1) by (simp add: mult_right_mono)
    also have "\<dots> \<le> v"
      using e assms(2) by linarith
    finally show False
      using v(2) by simp
  qed
  ultimately show "v \<in> (\<lambda>k. k * n + d) ` {0..<q}"
    using e by auto
next
  fix v assume "v \<in> (\<lambda>k. k * n + d) ` {0..<q}"
  then obtain k where k: "0 \<le> k" "k < q" "v = k * n + d" by auto
  have "0 \<le> k * n" using k(1) assms(1) by simp
  then have a: "0 \<le> v" using k(3) assms(2) by simp
  have "k + 1 \<le> q" using k(2) by simp
  then have "(k + 1) * n \<le> q * n" using assms(1) by (simp add: mult_right_mono)
  then have b: "v < q * n" using k(3) assms(3) by (simp add: algebra_simps)
  have c: "v mod n = d" using k(3) assms by simp
  show "v \<in> {v. 0 \<le> v \<and> v < q * n \<and> v mod n = d}"
    using a b c by simp
qed

lemma card_residue:
  fixes n d q :: int
  assumes "0 < n" "0 \<le> d" "d < n"
  shows "card {v. 0 \<le> v \<and> v < q * n \<and> v mod n = d} = nat q"
proof -
  have "inj_on (\<lambda>k. k * n + d) {0..<q}"
    using assms(1) by (auto simp: inj_on_def)
  then have "card ((\<lambda>k. k * n + d) ` {0..<q}) = card {0..<q}"
    by (rule card_image)
  then show ?thesis
    using residue_image [OF assms] by simp
qed

lemma accepted_samples:
  "{v. accepted (5 * Second) v \<and> Int63n (5 * Second) v = dur} =
   {v. 0 \<le> v \<and> v < 1844674407 * 5000000000 \<and> v mod 5000000000 = dur}"
  by (auto simp: accepted_def Int63n_def Int63n_max_def Second_def)

lemma jitter_uniform:
  assumes "0 \<le> dur" "dur < 5 * Second"
  shows "card {v. accepted (5 * Second) v \<and> Int63n (5 * Second) v = dur} = 1844674407"
proof -
  have "dur < 5000000000"
    using assms(2) by (simp add: Second_def)
  then have "card {v. 0 \<le> v \<and> v < 1844674407 * 5000000000 \<and> v mod 5000000000 = dur} =
      nat 1844674407"
    using assms(1) by (intro card_residue) simp_all
  then show ?thesis
    by (simp add: accepted_samples)
qed

text \<open>The loop of \<open>notifyWatchers\<close>, run one iteration at a time.\<close>

lemma sends_only_from:
  "k + n = length ws \<Longrightarrow>
   notifyWatchers_run (replicate n Send) (k, ws, got) =
     (length ws, take k ws @ notify_each (drop k ws),
      got \<union> {i. k \<le> i \<and> i < length ws \<and> parked (ws ! i)})"
proof (induction n arbitrary: k ws got)
  case 0
  then show ?case by auto
next
  case (Suc n)
  then have k: "k < length ws" by simp
  let ?ws = "ws[k := try_send (ws ! k)]"
  let ?got = "if parked (ws ! k) then insert k got else got"
  have "notifyWatchers_run (replicate (Suc n) Send) (k, ws, got) =
      notifyWatchers_run (replicate n Send) (k + 1, ?ws, ?got)"
    using k by simp
  also have "\<dots> = (length ?ws, take (k + 1) ?ws @ notify_each (drop (k + 1) ?ws),
      ?got \<union> {i. k + 1 \<le> i \<and> i < length ?ws \<and> parked (?ws ! i)})"
    using Suc.prems by (intro Suc.IH) simp
  also have "take (k + 1) ?ws @ notify_each (drop (k + 1) ?ws) =
      take k ws @ notify_each (drop k ws)"
    using k by (simp add: take_Suc_conv_app_nth Cons_nth_drop_Suc [symmetric])
  also have "?got \<union> {i. k + 1 \<le> i \<and> i < length ?ws \<and> parked (?ws ! i)} =
      got \<union> {i. k \<le> i \<and> i < length ws \<and> parked (ws ! i)}"
    using k by (auto simp: nth_list_update le_Suc_eq not_less_eq_eq)
  finally show ?case by simp
qed

lemma sends_only:
  "notifyWatchers_run (replicate (length ws) Send) (0, ws, {}) =
     (length ws, notify_each ws, {i. i < length ws \<and> parked (ws ! i)})"
  using sends_only_from [of 0 "length ws" ws "{}"] by simp

lemma sends_counted:
  "fst state \<le> length (fst (snd state)) \<Longrightarrow>
   fst (notifyWatchers_run sched state) =
     min (length (fst (snd state))) (fst state + count_list sched Send)"
  by (induction sched state rule: notifyWatchers_run.induct) auto

lemma single_slot_update:
  assumes "single_slot ws"
    and "cap ch = 1 \<and> buffered ch \<le> 1 \<and> (parked ch \<longrightarrow> buffered ch = 0)"
  shows "single_slot (ws[i := ch])"
  using assms
  by (auto simp: single_slot_def dest!: set_update_subset_insert [THEN subsetD])

lemma single_slot_nth:
  "single_slot ws \<Longrightarrow> i < length ws \<Longrightarrow>
   cap (ws ! i) = 1 \<and> buffered (ws ! i) \<le> 1 \<and> (parked (ws ! i) \<longrightarrow> buffered (ws ! i) = 0)"
  by (simp add: single_slot_def)

lemma pending_or_got:
  assumes "single_slot ws"
    and "\<forall>i < k. buffered (ws ! i) = 1 \<or> i \<in> got"
    and "k \<le> length ws"
  shows "\<forall>i < fst (notifyWatchers_run sched (k, ws, got)).
           buffered (fst (snd (notifyWatchers_run sched (k, ws, got))) ! i) = 1 \<or>
           i \<in> snd (snd (notifyWatchers_run sched (k, ws, got)))"
  using assms
proof (induction sched arbitrary: k ws got)
  case Nil
  then show ?case by simp
next
  case (Cons x sched)
  show ?case
  proof (cases x)
    case Send
    show ?thesis
    proof (cases "k < length ws")
      case True
      let ?ws = "ws[k := try_send (ws ! k)]"
      let ?got = "if parked (ws ! k) then insert k got else got"
      have wk: "cap (ws ! k) = 1 \<and> buffered (ws ! k) \<le> 1 \<and>
          (parked (ws ! k) \<longrightarrow> buffered (ws ! k) = 0)"
        using single_slot_nth [OF Cons.prems(1) True] .
      have ss: "single_slot ?ws"
        using wk by (intro single_slot_update [OF Cons.prems(1)]) (auto simp: try_send_def)
      have "buffered (try_send (ws ! k)) = 1 \<or> parked (ws ! k)"
        using wk by (auto simp: try_send_def)
      then have inv: "\<forall>i < k + 1. buffered (?ws ! i) = 1 \<or> i \<in> ?got"
        using Cons.prems(2) True by (auto simp: nth_list_update less_Suc_eq)
      have len: "k + 1 \<le> length ?ws"
        using True by simp
      from Cons.IH [OF ss inv len] True Send show ?thesis by simp
    next
      case False
      from Cons.IH [OF Cons.prems] False Send show ?thesis by simp
    qed
  next
    case (Drain j)
    show ?thesis
    proof (cases "j < length ws")
      case True
      let ?ws = "ws[j := receive (ws ! j)]"
      let ?got = "if takes (ws ! j) then insert j got else got"
      have wj: "cap (ws ! j) = 1 \<and> buffered (ws ! j) \<le> 1 \<and>
          (parked (ws ! j) \<longrightarrow> buffered (ws ! j) = 0)"
        using single_slot_nth [OF Cons.prems(1) True] .
      have ss: "single_slot ?ws"
        using wj by (intro single_slot_update [OF Cons.prems(1)]) (auto simp: receive_def)
      have inv: "\<forall>i < k. buffered (?ws ! i) = 1 \<or> i \<in> ?got"
      proof (intro allI impI)
        fix i assume i: "i < k"
        show "buffered (?ws ! i) = 1 \<or> i \<in> ?got"
        proof (cases "i = j")
          case True
          have "buffered (ws ! j) = 1 \<or> j \<in> got"
            using Cons.prems(2) i True by simp
          then show ?thesis
            using True wj \<open>j < length ws\<close> by (auto simp: takes_def receive_def)
        next
          case False
          then show ?thesis
            using Cons.prems(2) i by auto
        qed
      qed
      have len: "k \<le> length ?ws"
        using Cons.prems(3) by simp
      from Cons.IH [OF ss inv len] True Drain show ?thesis by simp
    next
      case False
      from Cons.IH [OF Cons.prems] False Drain show ?thesis by simp
    qed
  qed
qed

lemma pending_after_run:
  assumes "single_slot ws"
  shows "\<forall>i < fst (notifyWatchers_run sched (0, ws, {})).
           buffered (fst (snd (notifyWatchers_run sched (0, ws, {}))) ! i) = 1 \<or>
           i \<in> snd (snd (notifyWatchers_run sched (0, ws, {})))"
  using pending_or_got [of ws 0 "{}" sched] assms by simp

lemma try_send_not_parked: "\<not> parked (try_send ch)"
  by (simp add: try_send_def)

lemma got_only_if:
  "i \<in> snd (snd (notifyWatchers_run sched (k, ws, got))) \<Longrightarrow>
   i \<in> got \<or> parked (ws ! i) \<or> Drain i \<in> set sched"
proof (induction sched arbitrary: k ws got)
  case Nil
  then show ?case by simp
next
  case (Cons x sched)
  show ?case
  proof (cases x)
    case Send
    show ?thesis
    proof (cases "k < length ws")
      case True
      let ?ws = "ws[k := try_send (ws ! k)]"
      let ?got = "if parked (ws ! k) then insert k got else got"
      have "i \<in> snd (snd (notifyWatchers_run sched (k + 1, ?ws, ?got)))"
        using Cons.prems True Send by simp
      from Cons.IH [OF this] have "i \<in> ?got \<or> parked (?ws ! i) \<or> Drain i \<in> set sched" .
      moreover have "parked (?ws ! i) \<longrightarrow> parked (ws ! i)"
        using True by (cases "i = k") (simp_all add: try_send_not_parked)
      ultimately show ?thesis
        by (auto split: if_splits)
    next
      case False
      then show ?thesis using Cons Send by auto
    qed
  next
    case (Drain j)
    show ?thesis
    proof (cases "j < length ws")
      case True
      let ?ws = "ws[j := receive (ws ! j)]"
      let ?got = "if takes (ws ! j) then insert j got else got"
      have "i \<in> snd (snd (notifyWatchers_run sched (k, ?ws, ?got)))"
        using Cons.prems True Drain by simp
      from Cons.IH [OF this] have "i \<in> ?got \<or> parked (?ws ! i) \<or> Drain i \<in> set sched" .
      moreover have "i \<noteq> j \<longrightarrow> ?ws ! i = ws ! i"
        by simp
      ultimately show ?thesis
        using Drain by (cases "i = j") (auto split: if_splits)
    next
      case False
      then show ?thesis using Cons Drain by auto
    qed
  qed
qed

subsection \<open>Process role\<close>

text \<open>
  C7. \<open>getMode\<close> returns \<open>modeServer\<close> exactly when \<open>CONFIGURATION_MODE\<close> is the string
  \<open>server\<close>, and \<open>modeClient\<close> when it is \<open>client\<close>. For every other value, and when the
  variable is not set, it returns \<open>modeTest\<close> when the path of the executable is known
  and has the extension \<open>.test\<close>, and \<open>modeClient\<close> otherwise: client is the default.
\<close>

theorem getMode_role:
  "(getMode env exe = modeServer \<longleftrightarrow> Getenv env ''CONFIGURATION_MODE'' = ''server'') \<and>
   (Getenv env ''CONFIGURATION_MODE'' = ''client'' \<longrightarrow> getMode env exe = modeClient) \<and>
   (Getenv env ''CONFIGURATION_MODE'' \<noteq> ''server'' \<and>
    Getenv env ''CONFIGURATION_MODE'' \<noteq> ''client'' \<longrightarrow>
      getMode env exe =
        (if snd exe = None \<and> Ext (fst exe) = ''.test'' then modeTest else modeClient)) \<and>
   (env ''CONFIGURATION_MODE'' = None \<longrightarrow>
      getMode env exe =
        (if snd exe = None \<and> Ext (fst exe) = ''.test'' then modeTest else modeClient))"
  by (cases exe) (auto simp: getMode_def Let_def Getenv_def)

theorem getMode_role_witness:
  "getMode Map.empty (''/tmp/go-build/conf.test'', None) = modeTest \<and>
   getMode Map.empty (''/usr/bin/frontend'', None) = modeClient \<and>
   getMode (Map.empty(''CONFIGURATION_MODE'' \<mapsto> ''client''))
     (''/tmp/go-build/conf.test'', None) = modeClient"
  using getMode_role [of Map.empty "(''/tmp/go-build/conf.test'', None)"]
    getMode_role [of Map.empty "(''/usr/bin/frontend'', None)"]
    getMode_role [of "Map.empty(''CONFIGURATION_MODE'' \<mapsto> ''client'')"
      "(''/tmp/go-build/conf.test'', None)"]
  by (simp add: Getenv_def Ext_def)

subsection \<open>Package initialisation\<close>

text \<open>
  C1, as the claim states it, fails: in test mode \<open>init\<close> returns right after seeding the
  two stores, before the \<open>go\<close> statement, so the background refresh loop is not started.
  The process below is in test mode (no \<open>CONFIGURATION_MODE\<close>, an executable named
  \<open>conf.test\<close>); its \<open>init\<close> seeds both stores and starts no goroutine.
\<close>

theorem init_test_mode_loop_counterexample:
  "getMode Map.empty (''/tmp/go-build/conf.test'', None) = modeTest \<and>
   snd (init example_deps Map.empty (''/tmp/go-build/conf.test'', None) None) =
     [UpdateBasic dummyConfig, UpdateCore dummyConfig] \<and>
   Go GoContinuouslyUpdate \<notin>
     set (snd (init example_deps Map.empty (''/tmp/go-build/conf.test'', None) None))"
  by (simp add: init_def getMode_def Getenv_def Ext_def example_deps_def spec_store_def
      validate_nonempty_def dummyConfig_def Let_def)

text \<open>
  C1, amended. When the process role resolves to test mode, \<open>init\<close> seeds the basic store
  and then the core store, synchronously, with the placeholder document \<open>dummyConfig\<close> via
  \<open>MaybeUpdate\<close> on the new stores; an error of either seeding is fatal (after a failed
  basic seeding the core store is not seeded); the fetchers stay the HTTP fetchers, the
  global server is not touched, and the background refresh loop is not started.
\<close>

theorem init_test_mode_seeds:
  assumes "getMode env exe = modeTest"
    and "MaybeUpdate (basic d) dummyConfig (NewStore (basic d)) = ((ch1, e1), bs)"
    and "MaybeUpdate (core d) dummyConfig (NewStore (core d)) = ((ch2, e2), cs)"
  shows "Go GoContinuouslyUpdate \<notin> set (snd (init d env exe g)) \<and>
     snd (init d env exe g) =
       (case e1 of
          Some e \<Rightarrow> [UpdateBasic dummyConfig, LogFatalf e]
        | None \<Rightarrow>
            (case e2 of
               Some e \<Rightarrow> [UpdateBasic dummyConfig, UpdateCore dummyConfig, LogFatalf e]
             | None \<Rightarrow> [UpdateBasic dummyConfig, UpdateCore dummyConfig])) \<and>
     basicStore (defaultClient (fst (init d env exe g))) = bs \<and>
     coreStore (defaultClient (fst (init d env exe g))) =
       (if e1 = None then cs else NewStore (core d)) \<and>
     basicFetcher (defaultClient (fst (init d env exe g))) = httpBasicFetcher \<and>
     coreFetcher (defaultClient (fst (init d env exe g))) = httpCoreFetcher \<and>
     watchers (defaultClient (fst (init d env exe g))) = [] \<and>
     ConfigurationServerFrontendOnly (fst (init d env exe g)) = g"
  using assms by (auto simp: init_def Let_def split: option.splits)

theorem init_test_mode_seeds_witness:
  "getMode Map.empty (''/tmp/go-build/conf.test'', None) = modeTest \<and>
   MaybeUpdate (basic example_deps) dummyConfig (NewStore (basic example_deps)) =
     ((True, None), \<lparr>lastValid = Some dummyConfig, mock = None, ready = True\<rparr>) \<and>
   MaybeUpdate (core example_deps) dummyConfig (NewStore (core example_deps)) =
     ((True, None), \<lparr>lastValid = Some dummyConfig, mock = None, ready = True\<rparr>) \<and>
   Go GoContinuouslyUpdate \<notin>
     set (snd (init example_deps Map.empty (''/tmp/go-build/conf.test'', None) None)) \<and>
   LastValid (basic example_deps) (basicStore (defaultClient
     (fst (init example_deps Map.empty (''/tmp/go-build/conf.test'', None) None)))) =
     Some dummyConfig \<and>
   Initialized (core example_deps) (coreStore (defaultClient
     (fst (init example_deps Map.empty (''/tmp/go-build/conf.test'', None) None))))"
proof -
  have m: "getMode Map.empty (''/tmp/go-build/conf.test'', None) = modeTest"
    by (simp add: getMode_def Getenv_def Ext_def)
  have b: "MaybeUpdate (basic example_deps) dummyConfig (NewStore (basic example_deps)) =
     ((True, None), \<lparr>lastValid = Some dummyConfig, mock = None, ready = True\<rparr>)"
    by (simp add: example_deps_def spec_store_def validate_nonempty_def dummyConfig_def)
  have c: "MaybeUpdate (core example_deps) dummyConfig (NewStore (core example_deps)) =
     ((True, None), \<lparr>lastValid = Some dummyConfig, mock = None, ready = True\<rparr>)"
    by (simp add: example_deps_def spec_store_def validate_nonempty_def dummyConfig_def)
  show ?thesis
    using init_test_mode_seeds [OF m b c, of None] m b c
    by (simp add: example_deps_def spec_store_def)
qed

text \<open>
  C8. In server mode \<open>init\<close> does, in this order: it constructs the configuration
  server from the two file paths of the environment, starts it, installs the passthrough
  basic and core fetchers on the default client, and only then launches the background
  refresh goroutine. The global server is then the started server, so the passthrough
  fetchers, which read it, return.
\<close>

theorem init_server_mode_order:
  assumes "getMode env exe = modeServer"
  shows "snd (init d env exe g) =
       [NewServerCall (Getenv env ''SOURCEGRAPH_CONFIG_FILE'')
          (Getenv env ''SOURCEGRAPH_CONFIG_CORE_FILE''),
        StartServer,
        InstallBasicFetcher passthroughBasicFetcherFrontendOnly,
        InstallCoreFetcher passthroughCoreFetcherFrontendOnly,
        Go GoContinuouslyUpdate] \<and>
     ConfigurationServerFrontendOnly (fst (init d env exe g)) =
       Some (Start (confserver d)
         (NewServer (confserver d) (Getenv env ''SOURCEGRAPH_CONFIG_FILE'')
            (Getenv env ''SOURCEGRAPH_CONFIG_CORE_FILE''))) \<and>
     basicFetcher (defaultClient (fst (init d env exe g))) =
       passthroughBasicFetcherFrontendOnly \<and>
     coreFetcher (defaultClient (fst (init d env exe g))) =
       passthroughCoreFetcherFrontendOnly \<and>
     (\<forall>w. globalServer w = ConfigurationServerFrontendOnly (fst (init d env exe g)) \<longrightarrow>
        fetchers_return d w (defaultClient (fst (init d env exe g))))"
  using assms by (simp add: init_def Let_def fetchers_return_def)

theorem init_server_mode_order_witness:
  "getMode
     (Map.empty(''CONFIGURATION_MODE'' \<mapsto> ''server'',
        ''SOURCEGRAPH_CONFIG_FILE'' \<mapsto> ''/etc/site.json'',
        ''SOURCEGRAPH_CONFIG_CORE_FILE'' \<mapsto> ''/etc/core.json''))
     (''/usr/bin/frontend'', None) = modeServer \<and>
   snd (init example_deps
     (Map.empty(''CONFIGURATION_MODE'' \<mapsto> ''server'',
        ''SOURCEGRAPH_CONFIG_FILE'' \<mapsto> ''/etc/site.json'',
        ''SOURCEGRAPH_CONFIG_CORE_FILE'' \<mapsto> ''/etc/core.json''))
     (''/usr/bin/frontend'', None) None) =
     [NewServerCall ''/etc/site.json'' ''/etc/core.json'', StartServer,
      InstallBasicFetcher passthroughBasicFetcherFrontendOnly,
      InstallCoreFetcher passthroughCoreFetcherFrontendOnly,
      Go GoContinuouslyUpdate]"
proof -
  have m: "getMode
     (Map.empty(''CONFIGURATION_MODE'' \<mapsto> ''server'',
        ''SOURCEGRAPH_CONFIG_FILE'' \<mapsto> ''/etc/site.json'',
        ''SOURCEGRAPH_CONFIG_CORE_FILE'' \<mapsto> ''/etc/core.json''))
     (''/usr/bin/frontend'', None) = modeServer"
    by (simp add: getMode_def Getenv_def)
  show ?thesis
    using init_server_mode_order [OF m, of example_deps None] m
    by (simp add: Getenv_def)
qed

subsection \<open>Read path and mocks\<close>

text \<open>
  C5. \<open>Get\<close> returns the address of a \<open>SiteConfiguration\<close> whose \<open>Basic\<close> field is
  \<open>basicStore.LastValid()\<close> and whose \<open>Core\<close> field is \<open>coreStore.LastValid()\<close>. The
  object is constructed on every call: its address was not allocated before the call,
  the objects allocated before are as they were, and no later call of \<open>Get\<close>, on any
  client and after any further allocations, returns the same address.
\<close>

theorem Get_fresh_snapshot:
  "deref (snd (Get d c h)) (fst (Get d c h)) =
     Some \<lparr>Basic = LastValid (basic d) (basicStore c),
           Core = LastValid (core d) (coreStore c)\<rparr> \<and>
   deref h (fst (Get d c h)) = None \<and>
   take (length h) (snd (Get d c h)) = h \<and>
   (\<forall>c' later. fst (Get d c' (snd (Get d c h) @ later)) \<noteq> fst (Get d c h))"
  by (simp add: Get_def new_def)

theorem Get_fresh_snapshot_witness:
  "fst (Get example_deps example_client []) = Addr 0 \<and>
   fst (Get example_deps example_client (snd (Get example_deps example_client []))) = Addr 1 \<and>
   fst (Get example_deps example_client (snd (Get example_deps example_client []))) \<noteq>
     fst (Get example_deps example_client [])"
proof -
  have "fst (Get example_deps example_client (snd (Get example_deps example_client []) @ [])) \<noteq>
     fst (Get example_deps example_client [])"
    using Get_fresh_snapshot [of example_deps example_client "[]"] by blast
  then show ?thesis
    by (simp add: Get_def new_def)
qed

text \<open>
  C10. \<open>Get\<close> and \<open>GetTODO\<close> return a pointer that is not \<open>nil\<close> and that points to an
  allocated \<open>SiteConfiguration\<close>, for every client, also one whose stores are not
  initialized (its fields may then be \<open>nil\<close>); \<open>GetTODO\<close> returns what \<open>Get\<close> returns.
\<close>

theorem Get_never_nil:
  "fst (Get d c h) \<noteq> Nil \<and>
   deref (snd (Get d c h)) (fst (Get d c h)) \<noteq> None \<and>
   GetTODO d c h = Get d c h \<and>
   fst (GetTODO d c h) \<noteq> Nil"
  by (simp add: GetTODO_def Get_def new_def)

theorem Get_never_nil_witness:
  "\<not> Initialized (basic example_deps) (basicStore example_client) \<and>
   \<not> Initialized (core example_deps) (coreStore example_client) \<and>
   fst (GetTODO example_deps example_client []) \<noteq> Nil \<and>
   deref (snd (GetTODO example_deps example_client []))
     (fst (GetTODO example_deps example_client [])) = Some \<lparr>Basic = None, Core = None\<rparr>"
proof -
  have s: "basicStore example_client = \<lparr>lastValid = None, mock = None, ready = False\<rparr>"
    "coreStore example_client = \<lparr>lastValid = None, mock = None, ready = False\<rparr>"
    by (simp_all add: example_client_def init_def getMode_def Getenv_def example_deps_def
        spec_store_def)
  have g: "deref (snd (Get example_deps example_client []))
     (fst (Get example_deps example_client [])) = Some \<lparr>Basic = None, Core = None\<rparr>"
    using s by (simp add: Get_def new_def example_deps_def spec_store_def)
  show ?thesis
    using Get_never_nil [of example_deps example_client "[]"] s g
    by (simp add: example_deps_def spec_store_def)
qed

text \<open>
  C9. \<open>MockBasic\<close> and \<open>MockCore\<close> call the \<open>Mock\<close> operation of their store and do
  nothing else: the other store, the fetchers, the watcher registry and every channel of
  it are as before, so no notification is sent. The object that \<open>Get\<close> returns right
  after holds what \<open>LastValid\<close> returns on the mocked store.
\<close>

theorem Mock_frame:
  "MockBasic d b c = c\<lparr>basicStore := Mock (basic d) b (basicStore c)\<rparr> \<and>
   MockCore d k c = c\<lparr>coreStore := Mock (core d) k (coreStore c)\<rparr> \<and>
   watchers (MockBasic d b c) = watchers c \<and>
   watchers (MockCore d k c) = watchers c \<and>
   coreStore (MockBasic d b c) = coreStore c \<and>
   basicStore (MockCore d k c) = basicStore c \<and>
   basicFetcher (MockBasic d b c) = basicFetcher c \<and>
   coreFetcher (MockBasic d b c) = coreFetcher c \<and>
   basicFetcher (MockCore d k c) = basicFetcher c \<and>
   coreFetcher (MockCore d k c) = coreFetcher c \<and>
   deref (snd (Get d (MockBasic d b c) h)) (fst (Get d (MockBasic d b c) h)) =
     Some \<lparr>Basic = LastValid (basic d) (Mock (basic d) b (basicStore c)),
           Core = LastValid (core d) (coreStore c)\<rparr> \<and>
   deref (snd (Get d (MockCore d k c) h)) (fst (Get d (MockCore d k c) h)) =
     Some \<lparr>Basic = LastValid (basic d) (basicStore c),
           Core = LastValid (core d) (Mock (core d) k (coreStore c))\<rparr>"
  by (simp add: MockBasic_def MockCore_def Get_def new_def)

theorem Mock_frame_witness:
  "deref (snd (Get example_deps example_client [])) (fst (Get example_deps example_client [])) =
     Some \<lparr>Basic = None, Core = None\<rparr> \<and>
   deref (snd (Get example_deps (MockBasic example_deps (Some ''mocked'') example_client) []))
     (fst (Get example_deps (MockBasic example_deps (Some ''mocked'') example_client) [])) =
     Some \<lparr>Basic = Some ''mocked'', Core = None\<rparr> \<and>
   watchers (MockBasic example_deps (Some ''mocked'') example_client) = watchers example_client"
proof -
  have s: "basicStore example_client = \<lparr>lastValid = None, mock = None, ready = False\<rparr>"
    "coreStore example_client = \<lparr>lastValid = None, mock = None, ready = False\<rparr>"
    by (simp_all add: example_client_def init_def getMode_def Getenv_def example_deps_def
        spec_store_def)
  have g: "deref (snd (Get example_deps example_client []))
     (fst (Get example_deps example_client [])) = Some \<lparr>Basic = None, Core = None\<rparr>"
    using s by (simp add: Get_def new_def example_deps_def spec_store_def)
  have v: "LastValid (basic example_deps)
       (Mock (basic example_deps) (Some ''mocked'') (basicStore example_client)) = Some ''mocked''"
    "LastValid (core example_deps) (coreStore example_client) = None"
    using s by (simp_all add: example_deps_def spec_store_def)
  have m: "deref (snd (Get example_deps (MockBasic example_deps (Some ''mocked'') example_client) []))
     (fst (Get example_deps (MockBasic example_deps (Some ''mocked'') example_client) [])) =
     Some \<lparr>Basic = LastValid (basic example_deps)
             (Mock (basic example_deps) (Some ''mocked'') (basicStore example_client)),
           Core = LastValid (core example_deps) (coreStore example_client)\<rparr>"
    "watchers (MockBasic example_deps (Some ''mocked'') example_client) = watchers example_client"
    using Mock_frame [of example_deps "Some ''mocked''" example_client None "[]"] by blast+
  show ?thesis
    using g m v by simp
qed

subsection \<open>Notification\<close>

text \<open>
  C3, as stated, does not hold: a registered channel need not hold a pending
  notification when \<open>notifyWatchers\<close> completes. When the goroutine of the watcher is
  parked in \<open><-notify\<close>, the non-blocking send hands the notification to it and the
  buffer stays empty; and a watcher that receives while the loop is still running
  takes the notification out of the buffer before the loop completes.
\<close>

theorem notifyWatchers_pending_counterexample:
  "watchers parked_watcher_client = [\<lparr>cap = 1, buffered = 0, parked = True\<rparr>] \<and>
   watchers (notifyWatchers parked_watcher_client) = [\<lparr>cap = 1, buffered = 0, parked = False\<rparr>] \<and>
   \<not> 1 \<le> buffered (watchers (notifyWatchers parked_watcher_client) ! 0) \<and>
   notifyWatchers_run [Send, Drain 0] (0, [make_chan 1], {}) =
     (1, [\<lparr>cap = 1, buffered = 0, parked = False\<rparr>], {0})"
proof -
  have s: "basicStore example_client = \<lparr>lastValid = None, mock = None, ready = False\<rparr>"
    "coreStore example_client = \<lparr>lastValid = None, mock = None, ready = False\<rparr>"
    "watchers example_client = []"
    by (simp_all add: example_client_def init_def getMode_def Getenv_def example_deps_def
        spec_store_def)
  have w: "watchers (snd (Watch example_deps (\<lambda>c. c) example_schedule example_client)) =
      [\<lparr>cap = 1, buffered = 1, parked = False\<rparr>]"
    using s
    by (simp add: Watch_def watch_start_def example_schedule_def example_deps_def spec_store_def
        validate_nonempty_def MockBasic_def updateCore_def notifyWatchers_def make_chan_def
        try_send_def)
  have p: "watchers parked_watcher_client = [\<lparr>cap = 1, buffered = 0, parked = True\<rparr>]"
    unfolding parked_watcher_client_def using w by (simp add: receive_def)
  have n: "watchers (notifyWatchers parked_watcher_client) =
      [\<lparr>cap = 1, buffered = 0, parked = False\<rparr>]"
    using p by (simp add: notifyWatchers_def try_send_def)
  have r: "notifyWatchers_run [Send, Drain 0] (0, [make_chan 1], {}) =
     (1, [\<lparr>cap = 1, buffered = 0, parked = False\<rparr>], {0})"
    by (simp add: make_chan_def try_send_def receive_def takes_def)
  show ?thesis
    using p n r by simp
qed

text \<open>
  C3, amended. \<open>notifyWatchers\<close> performs non-blocking sends only: it returns for every
  state of the registry and keeps the registry's length; to each channel it hands the
  notification to the parked watcher, or else puts it into the buffer when there is room,
  or else (the buffer is full) leaves the channel as it is; nothing else of the client
  changes. Every registry reached from \<open>init\<close> has channels of capacity 1 that hold at
  most one element, and none when the watcher is parked. On such a registry, when
  \<open>notifyWatchers\<close> has run, every registered channel holds a pending notification or,
  if its watcher was parked, has handed the notification to the watcher and woken it.

  Run one iteration at a time with receives of the watchers in between, the loop is
  \<open>notifyWatchers\<close> when no watcher receives; the number of its iterations that are done
  depends on its own turns only, whatever the watchers do; and every channel it is done
  with holds a pending notification, or its watcher has got one since the loop began,
  which a watcher can only when it was parked at the beginning or received during the run.
\<close>

theorem notifyWatchers_delivers:
  "length (watchers (notifyWatchers c)) = length (watchers c) \<and>
   (\<forall>i. i < length (watchers c) \<longrightarrow>
      watchers (notifyWatchers c) ! i =
        (if parked (watchers c ! i) then (watchers c ! i)\<lparr>parked := False\<rparr>
         else if buffered (watchers c ! i) < cap (watchers c ! i)
         then (watchers c ! i)\<lparr>buffered := buffered (watchers c ! i) + 1\<rparr>
         else watchers c ! i)) \<and>
   basicStore (notifyWatchers c) = basicStore c \<and>
   coreStore (notifyWatchers c) = coreStore c \<and>
   basicFetcher (notifyWatchers c) = basicFetcher c \<and>
   coreFetcher (notifyWatchers c) = coreFetcher c \<and>
   single_slot (watchers (steps d as (defaultClient (fst (init d env exe g))))) \<and>
   (single_slot (watchers c) \<longrightarrow>
      (\<forall>i. i < length (watchers c) \<longrightarrow>
         cap (watchers (notifyWatchers c) ! i) = 1 \<and>
         \<not> parked (watchers (notifyWatchers c) ! i) \<and>
         buffered (watchers (notifyWatchers c) ! i) =
           (if parked (watchers c ! i) then 0 else 1))) \<and>
   notifyWatchers_run (replicate (length (watchers c)) Send) (0, watchers c, {}) =
     (length (watchers c), watchers (notifyWatchers c),
      {i. i < length (watchers c) \<and> parked (watchers c ! i)}) \<and>
   (\<forall>sched. fst (notifyWatchers_run sched (0, watchers c, {})) =
      min (length (watchers c)) (count_list sched Send)) \<and>
   (single_slot (watchers c) \<longrightarrow>
      (\<forall>sched i. i < fst (notifyWatchers_run sched (0, watchers c, {})) \<longrightarrow>
         buffered (fst (snd (notifyWatchers_run sched (0, watchers c, {}))) ! i) = 1 \<or>
         i \<in> snd (snd (notifyWatchers_run sched (0, watchers c, {}))))) \<and>
   (\<forall>sched i. i \<in> snd (snd (notifyWatchers_run sched (0, watchers c, {}))) \<longrightarrow>
      parked (watchers c ! i) \<or> Drain i \<in> set sched)"
proof -
  have effect: "length (watchers (notifyWatchers c)) = length (watchers c) \<and>
   (\<forall>i. i < length (watchers c) \<longrightarrow>
      watchers (notifyWatchers c) ! i =
        (if parked (watchers c ! i) then (watchers c ! i)\<lparr>parked := False\<rparr>
         else if buffered (watchers c ! i) < cap (watchers c ! i)
         then (watchers c ! i)\<lparr>buffered := buffered (watchers c ! i) + 1\<rparr>
         else watchers c ! i)) \<and>
   basicStore (notifyWatchers c) = basicStore c \<and>
   coreStore (notifyWatchers c) = coreStore c \<and>
   basicFetcher (notifyWatchers c) = basicFetcher c \<and>
   coreFetcher (notifyWatchers c) = coreFetcher c"
    by (simp add: notifyWatchers_def notify_each_map try_send_def)
  have reach: "single_slot (watchers (steps d as (defaultClient (fst (init d env exe g)))))"
    by (rule single_slot_reachable)
  have after: "single_slot (watchers c) \<longrightarrow>
      (\<forall>i. i < length (watchers c) \<longrightarrow>
         cap (watchers (notifyWatchers c) ! i) = 1 \<and>
         \<not> parked (watchers (notifyWatchers c) ! i) \<and>
         buffered (watchers (notifyWatchers c) ! i) =
           (if parked (watchers c ! i) then 0 else 1))"
    using notified_pending [of "watchers c"] by (auto simp: notifyWatchers_def)
  have alone: "notifyWatchers_run (replicate (length (watchers c)) Send) (0, watchers c, {}) =
     (length (watchers c), watchers (notifyWatchers c),
      {i. i < length (watchers c) \<and> parked (watchers c ! i)})"
    by (simp add: sends_only notifyWatchers_def)
  have turns: "\<forall>sched. fst (notifyWatchers_run sched (0, watchers c, {})) =
      min (length (watchers c)) (count_list sched Send)"
    by (simp add: sends_counted)
  have pending: "single_slot (watchers c) \<longrightarrow>
      (\<forall>sched i. i < fst (notifyWatchers_run sched (0, watchers c, {})) \<longrightarrow>
         buffered (fst (snd (notifyWatchers_run sched (0, watchers c, {}))) ! i) = 1 \<or>
         i \<in> snd (snd (notifyWatchers_run sched (0, watchers c, {}))))"
    using pending_after_run [of "watchers c"] by blast
  have got: "\<forall>sched i. i \<in> snd (snd (notifyWatchers_run sched (0, watchers c, {}))) \<longrightarrow>
      parked (watchers c ! i) \<or> Drain i \<in> set sched"
    using got_only_if [of _ _ 0 "watchers c" "{}"] by blast
  show ?thesis
    using effect reach after alone turns pending got by blast
qed

theorem notifyWatchers_delivers_witness:
  "watchers three_watchers_client =
     [\<lparr>cap = 1, buffered = 0, parked = True\<rparr>, \<lparr>cap = 1, buffered = 1, parked = False\<rparr>,
      \<lparr>cap = 1, buffered = 0, parked = False\<rparr>] \<and>
   single_slot (watchers three_watchers_client) \<and>
   length (watchers (notifyWatchers three_watchers_client)) = 3 \<and>
   watchers (notifyWatchers three_watchers_client) ! 0 =
     \<lparr>cap = 1, buffered = 0, parked = False\<rparr> \<and>
   watchers (notifyWatchers three_watchers_client) ! 1 =
     \<lparr>cap = 1, buffered = 1, parked = False\<rparr> \<and>
   watchers (notifyWatchers three_watchers_client) ! 2 =
     \<lparr>cap = 1, buffered = 1, parked = False\<rparr> \<and>
   fst (notifyWatchers_run [Send, Drain 1, Send, Drain 0, Send]
     (0, watchers three_watchers_client, {})) = 3 \<and>
   (buffered (fst (snd (notifyWatchers_run [Send, Drain 1, Send, Drain 0, Send]
      (0, watchers three_watchers_client, {}))) ! 0) = 1 \<or>
    0 \<in> snd (snd (notifyWatchers_run [Send, Drain 1, Send, Drain 0, Send]
      (0, watchers three_watchers_client, {}))))"
proof -
  define c where "c = three_watchers_client"
  define sched where "sched = [Send, Drain 1, Send, Drain 0, Send]"
  have s: "basicStore example_client = \<lparr>lastValid = None, mock = None, ready = False\<rparr>"
    "coreStore example_client = \<lparr>lastValid = None, mock = None, ready = False\<rparr>"
    "watchers example_client = []"
    by (simp_all add: example_client_def init_def getMode_def Getenv_def example_deps_def
        spec_store_def)
  have w: "snd (Watch example_deps (\<lambda>c. c) example_schedule example_client) =
      \<lparr>basicStore = \<lparr>lastValid = None, mock = Some ''mocked'', ready = True\<rparr>,
       basicFetcher = basicFetcher example_client,
       coreStore = \<lparr>lastValid = Some ''{}'', mock = None, ready = True\<rparr>,
       coreFetcher = coreFetcher example_client,
       watchers = [\<lparr>cap = 1, buffered = 1, parked = False\<rparr>]\<rparr>"
    using s
    by (simp add: Watch_def watch_start_def example_schedule_def example_deps_def spec_store_def
        validate_nonempty_def MockBasic_def updateCore_def notifyWatchers_def make_chan_def
        try_send_def)
  have before: "watchers c =
     [\<lparr>cap = 1, buffered = 0, parked = True\<rparr>, \<lparr>cap = 1, buffered = 1, parked = False\<rparr>,
      \<lparr>cap = 1, buffered = 0, parked = False\<rparr>]"
    unfolding c_def three_watchers_client_def parked_watcher_client_def w
    by (simp add: receive_def updateBasic_def notifyWatchers_def try_send_def make_chan_def
        example_deps_def spec_store_def validate_nonempty_def)
  have ss: "single_slot (watchers c)"
    using before by (simp add: single_slot_def)
  note nd = notifyWatchers_delivers
    [where c = c and d = example_deps and as = "[]" and env = Map.empty
      and exe = "([], None)" and g = None]
  have "length (watchers (notifyWatchers c)) = length (watchers c)"
    using nd by blast
  then have len: "length (watchers (notifyWatchers c)) = 3"
    using before by simp
  have each: "watchers (notifyWatchers c) ! i =
        (if parked (watchers c ! i) then (watchers c ! i)\<lparr>parked := False\<rparr>
         else if buffered (watchers c ! i) < cap (watchers c ! i)
         then (watchers c ! i)\<lparr>buffered := buffered (watchers c ! i) + 1\<rparr>
         else watchers c ! i)" if "i < length (watchers c)" for i
    using nd that by blast
  have n0: "watchers (notifyWatchers c) ! 0 = \<lparr>cap = 1, buffered = 0, parked = False\<rparr>"
    using each [of 0] before by simp
  have n1: "watchers (notifyWatchers c) ! 1 = \<lparr>cap = 1, buffered = 1, parked = False\<rparr>"
    using each [of 1] before by simp
  have n2: "watchers (notifyWatchers c) ! 2 = \<lparr>cap = 1, buffered = 1, parked = False\<rparr>"
    using each [of 2] before by simp
  have "fst (notifyWatchers_run sched (0, watchers c, {})) =
      min (length (watchers c)) (count_list sched Send)"
    using nd by blast
  then have k: "fst (notifyWatchers_run sched (0, watchers c, {})) = 3"
    using before by (simp add: sched_def)
  have "0 < fst (notifyWatchers_run sched (0, watchers c, {}))"
    using k by simp
  then have pend: "buffered (fst (snd (notifyWatchers_run sched (0, watchers c, {}))) ! 0) = 1 \<or>
      0 \<in> snd (snd (notifyWatchers_run sched (0, watchers c, {})))"
    using nd ss by blast
  show ?thesis
    using before ss len n0 n1 n2 k pend unfolding c_def sched_def by blast
qed

subsection \<open>Refresh\<close>

text \<open>
  C4. For each category, a refresh step whose fetcher returns broadcasts to the watcher
  channels exactly when the fetch returned no error and \<open>MaybeUpdate\<close> returned no error
  and reported a change. When the fetch or the update returns an error, the step returns
  that error wrapped with its context, and the watcher channels are as before. A step
  whose fetcher panics panics.
\<close>

theorem refresh_step_broadcast:
  "(\<forall>raw ferr changed uerr s'.
      FetchBasicConfig d w (basicFetcher c) = Returns (raw, ferr) \<and>
      MaybeUpdate (basic d) raw (basicStore c) = ((changed, uerr), s') \<longrightarrow>
      (\<exists>err c' tr.
         fetchAndUpdateBasic d w c = Returns (err, c', tr) \<and>
         (NotifyWatchers \<in> set tr \<longleftrightarrow> ferr = None \<and> uerr = None \<and> changed) \<and>
         watchers c' =
           (if ferr = None \<and> uerr = None \<and> changed then watchers (notifyWatchers c)
            else watchers c) \<and>
         err =
           (case ferr of
              Some e \<Rightarrow> Some (Wrap e ''unable to fetch new basic configuration'')
            | None \<Rightarrow>
                (case uerr of
                   Some e \<Rightarrow> Some (Wrap e ''unable to update new basic configuration'')
                 | None \<Rightarrow> None)))) \<and>
   (\<forall>raw ferr changed uerr s'.
      FetchCoreConfig d w (coreFetcher c) = Returns (raw, ferr) \<and>
      MaybeUpdate (core d) raw (coreStore c) = ((changed, uerr), s') \<longrightarrow>
      (\<exists>err c' tr.
         fetchAndUpdateCore d w c = Returns (err, c', tr) \<and>
         (NotifyWatchers \<in> set tr \<longleftrightarrow> ferr = None \<and> uerr = None \<and> changed) \<and>
         watchers c' =
           (if ferr = None \<and> uerr = None \<and> changed then watchers (notifyWatchers c)
            else watchers c) \<and>
         err =
           (case ferr of
              Some e \<Rightarrow> Some (Wrap e ''unable to fetch new core configuration'')
            | None \<Rightarrow>
                (case uerr of
                   Some e \<Rightarrow> Some (Wrap e ''unable to update new core configuration'')
                 | None \<Rightarrow> None)))) \<and>
   (FetchBasicConfig d w (basicFetcher c) = Panics \<longrightarrow> fetchAndUpdateBasic d w c = Panics) \<and>
   (FetchCoreConfig d w (coreFetcher c) = Panics \<longrightarrow> fetchAndUpdateCore d w c = Panics)"
  by (auto simp: fetchAndUpdateBasic_def updateBasic_def fetchAndUpdateCore_def updateCore_def
      notifyWatchers_def split: option.splits)

theorem refresh_step_broadcast_witness:
  "FetchBasicConfig example_deps world_basic_down (basicFetcher example_client) =
     Returns ([], Some (Err ''connection refused'')) \<and>
   FetchCoreConfig example_deps world_basic_down (coreFetcher example_client) =
     Returns (''{}'', None) \<and>
   (\<exists>c' tr. fetchAndUpdateBasic example_deps world_basic_down example_client =
      Returns (Some (Wrap (Err ''connection refused'')
        ''unable to fetch new basic configuration''), c', tr) \<and>
      NotifyWatchers \<notin> set tr \<and> watchers c' = watchers example_client) \<and>
   (\<exists>c' tr. fetchAndUpdateCore example_deps world_basic_down example_client =
      Returns (None, c', tr) \<and> NotifyWatchers \<in> set tr)"
proof -
  have fb: "FetchBasicConfig example_deps world_basic_down (basicFetcher example_client) =
     Returns ([], Some (Err ''connection refused''))"
    by (simp add: example_client_def init_def getMode_def Getenv_def world_basic_down_def)
  have fc: "FetchCoreConfig example_deps world_basic_down (coreFetcher example_client) =
     Returns (''{}'', None)"
    by (simp add: example_client_def init_def getMode_def Getenv_def world_basic_down_def)
  obtain chb ueb sb where ub: "MaybeUpdate (basic example_deps) [] (basicStore example_client) =
     ((chb, ueb), sb)"
    by (metis surj_pair)
  have uc: "MaybeUpdate (core example_deps) ''{}'' (coreStore example_client) =
     ((True, None), \<lparr>lastValid = Some ''{}'', mock = None, ready = True\<rparr>)"
    by (simp add: example_client_def init_def getMode_def Getenv_def example_deps_def
        spec_store_def validate_nonempty_def)
  have b: "\<exists>c' tr. fetchAndUpdateBasic example_deps world_basic_down example_client =
      Returns (Some (Wrap (Err ''connection refused'')
        ''unable to fetch new basic configuration''), c', tr) \<and>
      NotifyWatchers \<notin> set tr \<and> watchers c' = watchers example_client"
    using refresh_step_broadcast [of example_deps world_basic_down example_client] fb ub
    by fastforce
  have c: "\<exists>c' tr. fetchAndUpdateCore example_deps world_basic_down example_client =
      Returns (None, c', tr) \<and> NotifyWatchers \<in> set tr"
    using refresh_step_broadcast [of example_deps world_basic_down example_client] fc uc
    by fastforce
  show ?thesis
    using fb fc b c by simp
qed

text \<open>
  C6. An iteration of the background refresh loop whose fetchers return runs the basic
  step and then the core step, the second on the client the first left, whatever error
  the first returned; it collects the errors of the two steps that are not \<open>nil\<close> and
  logs them, once, when there is one; and it ends by sleeping the duration
  \<open>rand.Int63n(5 * time.Second)\<close>, whatever the outcome. That duration lies in \<open>[0, 5s)\<close>,
  and it is uniform: every duration of \<open>[0, 5s)\<close> is what \<open>Int63n\<close> returns on the same
  number of the raw samples it accepts. No error of a fetch or of an update ends the
  loop or the process: over any worlds whose fetchers return, the loop runs every
  iteration, each with its two fetches in order and its sleep, and never calls
  \<open>log.Fatalf\<close>.

  The loop is made of these iterations and of nothing else. After any number of
  iterations, the next turn of the loop is one iteration on the client the loop has
  left, and the loop has done what it had done followed by what that iteration did.
  Over worlds whose fetchers return, every turn of the loop, whatever came before it
  and whatever comes after it, fetches the basic document with the fetcher of the
  client the earlier turns left, updates the basic store, fetches the core document
  with the fetcher of the client the basic step left, updates the core store, logs the
  errors of the two steps when there is one, and sleeps; the later turns go on from the
  client it leaves. The only thing that ends the loop is a fetcher that panics.
\<close>

theorem continuouslyUpdate_iterations:
  "(\<forall>fb fc.
      FetchBasicConfig d w (basicFetcher c) = Returns fb \<and>
      FetchCoreConfig d w (coreFetcher c) = Returns fc \<longrightarrow>
      (\<exists>e1 c1 t1 e2 c2 t2.
         updateBasic d fb c = (e1, c1, t1) \<and>
         updateCore d fc c1 = (e2, c2, t2) \<and>
         iteration d w c =
           Returns (c2,
             t1 @ t2 @
             (if e1 = None \<and> e2 = None then [] else [LogPrintf (non_nil [e1, e2])]) @
             [Sleep (Int63n (5 * Second) (Int63 w))]))) \<and>
   5 * Second = 5000000000 \<and> 0 < 5 * Second \<and> 5 * Second < 2 ^ 63 \<and>
   (accepted (5 * Second) (Int63 w) \<longrightarrow>
      0 \<le> Int63n (5 * Second) (Int63 w) \<and> Int63n (5 * Second) (Int63 w) < 5 * Second) \<and>
   (\<forall>dur. 0 \<le> dur \<and> dur < 5 * Second \<longrightarrow>
      card {v. accepted (5 * Second) v \<and> Int63n (5 * Second) v = dur} = 1844674407) \<and>
   (\<forall>ws.
      (\<forall>w' \<in> set ws. fetchers_return d w' c) \<longrightarrow>
      (\<exists>c' tr.
         continuouslyUpdate d ws c = Returns (c', tr) \<and>
         fetches tr = concat (map (\<lambda>w'. [FetchBasic, FetchCore]) ws) \<and>
         sleeps tr = map (\<lambda>w'. Int63n (5 * Second) (Int63 w')) ws \<and>
         (\<forall>a \<in> set tr. \<not> fatal a))) \<and>
   (\<forall>ws w'.
      continuouslyUpdate d (ws @ [w']) c =
        (case continuouslyUpdate d ws c of
           Panics \<Rightarrow> Panics
         | Returns (c1, t1) \<Rightarrow>
             (case iteration d w' c1 of
                Panics \<Rightarrow> Panics
              | Returns (c2, t2) \<Rightarrow> Returns (c2, t1 @ t2)))) \<and>
   (\<forall>pre w' post.
      (\<forall>x \<in> set (pre @ w' # post). fetchers_return d x c) \<longrightarrow>
      (\<exists>c1 t1 fb fc e1 cb tb e2 c2 t2 c3 t3.
         continuouslyUpdate d pre c = Returns (c1, t1) \<and>
         FetchBasicConfig d w' (basicFetcher c1) = Returns fb \<and>
         updateBasic d fb c1 = (e1, cb, tb) \<and>
         FetchCoreConfig d w' (coreFetcher cb) = Returns fc \<and>
         updateCore d fc cb = (e2, c2, t2) \<and>
         iteration d w' c1 =
           Returns (c2,
             tb @ t2 @
             (if e1 = None \<and> e2 = None then [] else [LogPrintf (non_nil [e1, e2])]) @
             [Sleep (Int63n (5 * Second) (Int63 w'))]) \<and>
         continuouslyUpdate d post c2 = Returns (c3, t3) \<and>
         continuouslyUpdate d (pre @ w' # post) c =
           Returns (c3,
             t1 @
             (tb @ t2 @
              (if e1 = None \<and> e2 = None then [] else [LogPrintf (non_nil [e1, e2])]) @
              [Sleep (Int63n (5 * Second) (Int63 w'))]) @
             t3))) \<and>
   (\<forall>ws. continuouslyUpdate d ws c = Panics \<longleftrightarrow>
      (\<exists>x \<in> set ws. \<not> fetchers_return d x c))"
proof -
  have one: "\<exists>e1 c1 t1 e2 c2 t2.
         updateBasic d fb c = (e1, c1, t1) \<and>
         updateCore d fc c1 = (e2, c2, t2) \<and>
         iteration d w c =
           Returns (c2,
             t1 @ t2 @
             (if e1 = None \<and> e2 = None then [] else [LogPrintf (non_nil [e1, e2])]) @
             [Sleep (Int63n (5 * Second) (Int63 w))])"
    if r: "FetchBasicConfig d w (basicFetcher c) = Returns fb"
      "FetchCoreConfig d w (coreFetcher c) = Returns fc" for fb fc
  proof -
    obtain e1 c1 t1 where r1: "updateBasic d fb c = (e1, c1, t1)"
      by (cases "updateBasic d fb c") auto
    obtain e2 c2 t2 where r2: "updateCore d fc c1 = (e2, c2, t2)"
      by (cases "updateCore d fc c1") auto
    have "iteration d w c = Returns (after_iteration d fb fc w c)"
      using iteration_returns [OF r] .
    then have "iteration d w c =
           Returns (c2,
             t1 @ t2 @
             (if e1 = None \<and> e2 = None then [] else [LogPrintf (non_nil [e1, e2])]) @
             [Sleep (Int63n (5 * Second) (Int63 w))])"
      using r1 r2 non_nil_empty [of e1 e2]
      by (simp add: after_iteration_def Let_def Append_non_nil)
    then show ?thesis
      using r1 r2 by blast
  qed
  have bound: "5 * Second = 5000000000 \<and> 0 < 5 * Second \<and> 5 * Second < 2 ^ 63"
    by (simp add: Second_def)
  have range: "accepted (5 * Second) (Int63 w) \<longrightarrow>
      0 \<le> Int63n (5 * Second) (Int63 w) \<and> Int63n (5 * Second) (Int63 w) < 5 * Second"
    by (simp add: Int63n_def Second_def)
  have uniform: "\<forall>dur. 0 \<le> dur \<and> dur < 5 * Second \<longrightarrow>
      card {v. accepted (5 * Second) v \<and> Int63n (5 * Second) v = dur} = 1844674407"
    using jitter_uniform by blast
  have first: "(\<forall>fb fc.
      FetchBasicConfig d w (basicFetcher c) = Returns fb \<and>
      FetchCoreConfig d w (coreFetcher c) = Returns fc \<longrightarrow>
      (\<exists>e1 c1 t1 e2 c2 t2.
         updateBasic d fb c = (e1, c1, t1) \<and>
         updateCore d fc c1 = (e2, c2, t2) \<and>
         iteration d w c =
           Returns (c2,
             t1 @ t2 @
             (if e1 = None \<and> e2 = None then [] else [LogPrintf (non_nil [e1, e2])]) @
             [Sleep (Int63n (5 * Second) (Int63 w))]))) \<and>
   5 * Second = 5000000000 \<and> 0 < 5 * Second \<and> 5 * Second < 2 ^ 63 \<and>
   (accepted (5 * Second) (Int63 w) \<longrightarrow>
      0 \<le> Int63n (5 * Second) (Int63 w) \<and> Int63n (5 * Second) (Int63 w) < 5 * Second) \<and>
   (\<forall>dur. 0 \<le> dur \<and> dur < 5 * Second \<longrightarrow>
      card {v. accepted (5 * Second) v \<and> Int63n (5 * Second) v = dur} = 1844674407) \<and>
   (\<forall>ws.
      (\<forall>w' \<in> set ws. fetchers_return d w' c) \<longrightarrow>
      (\<exists>c' tr.
         continuouslyUpdate d ws c = Returns (c', tr) \<and>
         fetches tr = concat (map (\<lambda>w'. [FetchBasic, FetchCore]) ws) \<and>
         sleeps tr = map (\<lambda>w'. Int63n (5 * Second) (Int63 w')) ws \<and>
         (\<forall>a \<in> set tr. \<not> fatal a)))"
    using one bound range uniform loop_runs [of _ d c] by blast
  have next_turn: "\<forall>ws w'.
      continuouslyUpdate d (ws @ [w']) c =
        (case continuouslyUpdate d ws c of
           Panics \<Rightarrow> Panics
         | Returns (c1, t1) \<Rightarrow>
             (case iteration d w' c1 of
                Panics \<Rightarrow> Panics
              | Returns (c2, t2) \<Rightarrow> Returns (c2, t1 @ t2)))"
    using loop_snoc [of d _ _ c] by blast
  have every: "\<forall>pre w' post.
      (\<forall>x \<in> set (pre @ w' # post). fetchers_return d x c) \<longrightarrow>
      (\<exists>c1 t1 fb fc e1 cb tb e2 c2 t2 c3 t3.
         continuouslyUpdate d pre c = Returns (c1, t1) \<and>
         FetchBasicConfig d w' (basicFetcher c1) = Returns fb \<and>
         updateBasic d fb c1 = (e1, cb, tb) \<and>
         FetchCoreConfig d w' (coreFetcher cb) = Returns fc \<and>
         updateCore d fc cb = (e2, c2, t2) \<and>
         iteration d w' c1 =
           Returns (c2,
             tb @ t2 @
             (if e1 = None \<and> e2 = None then [] else [LogPrintf (non_nil [e1, e2])]) @
             [Sleep (Int63n (5 * Second) (Int63 w'))]) \<and>
         continuouslyUpdate d post c2 = Returns (c3, t3) \<and>
         continuouslyUpdate d (pre @ w' # post) c =
           Returns (c3,
             t1 @
             (tb @ t2 @
              (if e1 = None \<and> e2 = None then [] else [LogPrintf (non_nil [e1, e2])]) @
              [Sleep (Int63n (5 * Second) (Int63 w'))]) @
             t3))"
    by (intro allI impI) (erule loop_every_iteration)
  have ends: "\<forall>ws. continuouslyUpdate d ws c = Panics \<longleftrightarrow>
      (\<exists>x \<in> set ws. \<not> fetchers_return d x c)"
    using loop_panics [of d _ c] by blast
  from first next_turn every ends show ?thesis
    by (intro conjI) (elim conjE, assumption)+
qed

theorem continuouslyUpdate_iterations_witness:
  "fetchers_return example_deps world_basic_down example_client \<and>
   fetchers_return example_deps world_up example_client \<and>
   accepted (5 * Second) (Int63 world_up) \<and>
   0 \<le> Int63n (5 * Second) (Int63 world_up) \<and>
   Int63n (5 * Second) (Int63 world_up) < 5000000000 \<and>
   card {v. accepted (5 * Second) v \<and> Int63n (5 * Second) v = 4999999999} = 1844674407 \<and>
   (\<exists>c' tr.
      continuouslyUpdate example_deps [world_basic_down, world_up] example_client =
        Returns (c', tr) \<and>
      fetches tr = [FetchBasic, FetchCore, FetchBasic, FetchCore] \<and>
      sleeps tr = [2000001234, 3854775807]) \<and>
   (\<exists>c1 t1 c2 t2.
      continuouslyUpdate example_deps [world_basic_down] example_client = Returns (c1, t1) \<and>
      iteration example_deps world_up c1 = Returns (c2, t2) \<and>
      continuouslyUpdate example_deps [world_basic_down, world_up] example_client =
        Returns (c2, t1 @ t2)) \<and>
   continuouslyUpdate example_deps [world_basic_down, world_up] example_client =
     Returns
      (\<lparr>basicStore = \<lparr>lastValid = Some ''{}'', mock = None, ready = True\<rparr>,
        basicFetcher = httpBasicFetcher,
        coreStore = \<lparr>lastValid = Some ''{}'', mock = None, ready = True\<rparr>,
        coreFetcher = httpCoreFetcher, watchers = []\<rparr>,
       [FetchBasic, FetchCore, UpdateCore ''{}'', NotifyWatchers,
        LogPrintf [Wrap (Err ''connection refused'') ''unable to fetch new basic configuration''],
        Sleep 2000001234,
        FetchBasic, UpdateBasic ''{}'', NotifyWatchers, FetchCore, UpdateCore ''{}'',
        Sleep 3854775807])"
proof -
  note it = continuouslyUpdate_iterations [of example_deps world_up example_client]
  have f: "\<forall>w \<in> set [world_basic_down, world_up]. fetchers_return example_deps w example_client"
    by (simp add: fetchers_return_def example_client_def init_def getMode_def Getenv_def)
  have r: "accepted (5 * Second) (Int63 world_up)"
    by (simp add: accepted_def Int63n_max_def world_up_def Second_def)
  have s: "5 * Second = 5000000000"
    using it by blast
  have j: "0 \<le> Int63n (5 * Second) (Int63 world_up) \<and>
      Int63n (5 * Second) (Int63 world_up) < 5 * Second"
    using it r by blast
  have "(0::int) \<le> 4999999999 \<and> (4999999999::int) < 5 * Second"
    by (simp add: Second_def)
  then have u: "card {v. accepted (5 * Second) v \<and> Int63n (5 * Second) v = 4999999999} =
      1844674407"
    using it by blast
  have v: "concat (map (\<lambda>w'. [FetchBasic, FetchCore]) [world_basic_down, world_up]) =
      [FetchBasic, FetchCore, FetchBasic, FetchCore]"
    "map (\<lambda>w'. Int63n (5 * Second) (Int63 w')) [world_basic_down, world_up] =
      [2000001234, 3854775807]"
    by (simp_all add: world_basic_down_def world_up_def Second_def Int63n_def)
  have "\<exists>c' tr.
      continuouslyUpdate example_deps [world_basic_down, world_up] example_client =
        Returns (c', tr) \<and>
      fetches tr = concat (map (\<lambda>w'. [FetchBasic, FetchCore]) [world_basic_down, world_up]) \<and>
      sleeps tr = map (\<lambda>w'. Int63n (5 * Second) (Int63 w')) [world_basic_down, world_up] \<and>
      (\<forall>a \<in> set tr. \<not> fatal a)"
    using it f by blast
  then have l: "\<exists>c' tr.
      continuouslyUpdate example_deps [world_basic_down, world_up] example_client =
        Returns (c', tr) \<and>
      fetches tr = [FetchBasic, FetchCore, FetchBasic, FetchCore] \<and>
      sleeps tr = [2000001234, 3854775807]"
    unfolding v by blast
  have j': "Int63n (5 * Second) (Int63 world_up) < 5000000000"
    using j unfolding s by blast
  have f': "fetchers_return example_deps world_basic_down example_client"
    "fetchers_return example_deps world_up example_client"
    using f by simp_all
  have e: "(\<forall>x \<in> set ([world_basic_down] @ world_up # []).
        fetchers_return example_deps x example_client) \<longrightarrow>
      (\<exists>c1 t1 fb fc e1 cb tb e2 c2 t2 c3 t3.
         continuouslyUpdate example_deps [world_basic_down] example_client = Returns (c1, t1) \<and>
         FetchBasicConfig example_deps world_up (basicFetcher c1) = Returns fb \<and>
         updateBasic example_deps fb c1 = (e1, cb, tb) \<and>
         FetchCoreConfig example_deps world_up (coreFetcher cb) = Returns fc \<and>
         updateCore example_deps fc cb = (e2, c2, t2) \<and>
         iteration example_deps world_up c1 =
           Returns (c2,
             tb @ t2 @
             (if e1 = None \<and> e2 = None then [] else [LogPrintf (non_nil [e1, e2])]) @
             [Sleep (Int63n (5 * Second) (Int63 world_up))]) \<and>
         continuouslyUpdate example_deps [] c2 = Returns (c3, t3) \<and>
         continuouslyUpdate example_deps ([world_basic_down] @ world_up # []) example_client =
           Returns (c3,
             t1 @
             (tb @ t2 @
              (if e1 = None \<and> e2 = None then [] else [LogPrintf (non_nil [e1, e2])]) @
              [Sleep (Int63n (5 * Second) (Int63 world_up))]) @
             t3))"
    using it by blast
  have "\<forall>x \<in> set ([world_basic_down] @ world_up # []).
        fetchers_return example_deps x example_client"
    using f by simp
  with e obtain c1 t1 c2 ti c3 t3 where
    p: "continuouslyUpdate example_deps [world_basic_down] example_client = Returns (c1, t1)"
    and i: "iteration example_deps world_up c1 = Returns (c2, ti)"
    and q: "continuouslyUpdate example_deps [] c2 = Returns (c3, t3)"
    and whole: "continuouslyUpdate example_deps ([world_basic_down] @ world_up # [])
        example_client = Returns (c3, t1 @ ti @ t3)"
    by blast
  have "c3 = c2 \<and> t3 = []"
    using q by simp
  then have "continuouslyUpdate example_deps [world_basic_down, world_up] example_client =
      Returns (c2, t1 @ ti)"
    using whole by simp
  then have m: "\<exists>c1 t1 c2 t2.
      continuouslyUpdate example_deps [world_basic_down] example_client = Returns (c1, t1) \<and>
      iteration example_deps world_up c1 = Returns (c2, t2) \<and>
      continuouslyUpdate example_deps [world_basic_down, world_up] example_client =
        Returns (c2, t1 @ t2)"
    using p i by blast
  have x: "continuouslyUpdate example_deps [world_basic_down, world_up] example_client =
     Returns
      (\<lparr>basicStore = \<lparr>lastValid = Some ''{}'', mock = None, ready = True\<rparr>,
        basicFetcher = httpBasicFetcher,
        coreStore = \<lparr>lastValid = Some ''{}'', mock = None, ready = True\<rparr>,
        coreFetcher = httpCoreFetcher, watchers = []\<rparr>,
       [FetchBasic, FetchCore, UpdateCore ''{}'', NotifyWatchers,
        LogPrintf [Wrap (Err ''connection refused'') ''unable to fetch new basic configuration''],
        Sleep 2000001234,
        FetchBasic, UpdateBasic ''{}'', NotifyWatchers, FetchCore, UpdateCore ''{}'',
        Sleep 3854775807])"
    by (simp add: iteration_def fetchAndUpdateBasic_def fetchAndUpdateCore_def updateBasic_def
      updateCore_def example_client_def init_def getMode_def Getenv_def world_basic_down_def
      world_up_def example_deps_def spec_store_def validate_nonempty_def notifyWatchers_def
      Append_def ErrorOrNil_def Int63n_def Second_def Let_def)
  show ?thesis
    using f' r j j' u l m x by blast
qed

subsection \<open>Subscription\<close>

text \<open>
  C2. A call of \<open>Watch\<close> first makes a channel of capacity 1 and appends it to the
  watcher registry, whatever the state of the stores. What the call has done is, under
  every schedule, a beginning of the sequence: make the channel, append it, wait for
  the basic store, wait for the core store, call \<open>f\<close>, start the goroutine of the
  watcher. Between the registration and the callback its channel is in the registry,
  with capacity 1, whatever the other goroutines do. At each wait the call stays where
  it is exactly as long as that store is not initialized. When it has returned it has
  called \<open>f\<close> exactly once, itself, after both waits. On stores that are initialized it
  returns in five steps, with \<open>f\<close> applied to the client that holds the new channel.

  After any schedule, a turn of another goroutine leaves the call as it is, and a turn
  of the call does this: it registers; or it passes the wait for the basic store if
  that store is initialized and changes nothing if not; or the same at the wait for
  the core store; or it applies \<open>f\<close> to the client; or it starts the goroutine and
  returns; or, returned, it does nothing.

  A call that has returned has taken exactly five steps, the turns of the schedule in
  between being turns of other goroutines, or turns at which the call was blocked at a
  wait whose store was not initialized. Its first step registered the channel; its
  second found the basic store initialized, its third the core store; its fourth
  applied \<open>f\<close>, once, to the client as the registration and the other goroutines had
  made it; and since then only the other goroutines have changed the client.
\<close>

theorem Watch_registers_waits_calls_once:
  fixes d :: "('bs, 'b, 'cs, 'c, 'srv) deps"
  shows "Watch d f [Self] c =
     (\<lparr>pc = AtWaitBasic, notify = Some (length (watchers c)),
       trace = [MakeChan 1, AppendWatcher (length (watchers c))]\<rparr>,
      c\<lparr>watchers := watchers c @ [make_chan 1]\<rparr>) \<and>
   (\<exists>n. trace (fst (Watch d f sched c)) =
          take (progress (pc (fst (Watch d f sched c)))) (watch_trace n)) \<and>
   (before_callback (pc (fst (Watch d f sched c))) \<longrightarrow>
      (\<exists>n. notify (fst (Watch d f sched c)) = Some n \<and>
           registered n (snd (Watch d f sched c)))) \<and>
   (pc (fst (Watch d f sched c)) = AtReturn \<longrightarrow>
      (\<exists>n. trace (fst (Watch d f sched c)) = watch_trace n) \<and>
      count_list (trace (fst (Watch d f sched c))) Callback = 1) \<and>
   (\<forall>t c'. pc t = AtWaitBasic \<longrightarrow>
      (Watch_step d f (t, c') = (t, c') \<longleftrightarrow> \<not> Initialized (basic d) (basicStore c'))) \<and>
   (\<forall>t c'. pc t = AtWaitCore \<longrightarrow>
      (Watch_step d f (t, c') = (t, c') \<longleftrightarrow> \<not> Initialized (core d) (coreStore c'))) \<and>
   (Initialized (basic d) (basicStore c) \<and> Initialized (core d) (coreStore c) \<longrightarrow>
      Watch d f [Self, Self, Self, Self, Self] c =
        (\<lparr>pc = AtReturn, notify = Some (length (watchers c)),
          trace = watch_trace (length (watchers c))\<rparr>,
         f (c\<lparr>watchers := watchers c @ [make_chan 1]\<rparr>))) \<and>
   (\<forall>t c1. Watch d f sched c = (t, c1) \<longrightarrow>
      (\<forall>a. Watch d f (sched @ [Other a]) c = (t, other_step d a c1)) \<and>
      (pc t = AtRegister \<longrightarrow>
         Watch d f (sched @ [Self]) c =
           (\<lparr>pc = AtWaitBasic, notify = Some (length (watchers c1)),
             trace = [MakeChan 1, AppendWatcher (length (watchers c1))]\<rparr>,
            c1\<lparr>watchers := watchers c1 @ [make_chan 1]\<rparr>)) \<and>
      (pc t = AtWaitBasic \<longrightarrow>
         Watch d f (sched @ [Self]) c =
           (if Initialized (basic d) (basicStore c1)
            then (t\<lparr>pc := AtWaitCore, trace := trace t @ [WaitedBasic]\<rparr>, c1)
            else (t, c1))) \<and>
      (pc t = AtWaitCore \<longrightarrow>
         Watch d f (sched @ [Self]) c =
           (if Initialized (core d) (coreStore c1)
            then (t\<lparr>pc := AtCallback, trace := trace t @ [WaitedCore]\<rparr>, c1)
            else (t, c1))) \<and>
      (pc t = AtCallback \<longrightarrow>
         Watch d f (sched @ [Self]) c =
           (t\<lparr>pc := AtSpawn, trace := trace t @ [Callback]\<rparr>, f c1)) \<and>
      (pc t = AtSpawn \<longrightarrow>
         (\<exists>n. notify t = Some n \<and>
            Watch d f (sched @ [Self]) c =
              (t\<lparr>pc := AtReturn, trace := trace t @ [Go (GoWatcher n)]\<rparr>, c1))) \<and>
      (pc t = AtReturn \<longrightarrow> Watch d f (sched @ [Self]) c = (t, c1))) \<and>
   (pc (fst (Watch d f sched c)) = AtReturn \<longrightarrow>
      (\<exists>s0 s1 s2 s3 s4 s5 c0 c1 c2 c3 c4.
         sched = s0 @ Self # s1 @ Self # s2 @ Self # s3 @ Self # s4 @ Self # s5 \<and>
         Self \<notin> set s0 \<and> Self \<notin> set s3 \<and> Self \<notin> set s4 \<and>
         c0 = (steps d (others s0) c)
                \<lparr>watchers := watchers (steps d (others s0) c) @ [make_chan 1]\<rparr> \<and>
         c1 = steps d (others s1) c0 \<and>
         Initialized (basic d) (basicStore c1) \<and>
         (\<forall>p q. s1 = p @ Self # q \<longrightarrow>
            \<not> Initialized (basic d) (basicStore (steps d (others p) c0))) \<and>
         c2 = steps d (others s2) c1 \<and>
         Initialized (core d) (coreStore c2) \<and>
         (\<forall>p q. s2 = p @ Self # q \<longrightarrow>
            \<not> Initialized (core d) (coreStore (steps d (others p) c1))) \<and>
         c3 = steps d (others s3) c2 \<and>
         c4 = steps d (others s4) (f c3) \<and>
         Watch d f sched c =
           (\<lparr>pc = AtReturn, notify = Some (length (watchers (steps d (others s0) c))),
             trace = watch_trace (length (watchers (steps d (others s0) c)))\<rparr>,
            steps d (others s5) c4)))"
proof -
  let ?t = "fst (Watch d f sched c)"
  let ?c = "snd (Watch d f sched c)"
  have inv: "watch_inv (?t, ?c)"
    using watch_inv_Watch [of d f sched c] by simp
  have first: "Watch d f [Self] c =
     (\<lparr>pc = AtWaitBasic, notify = Some (length (watchers c)),
       trace = [MakeChan 1, AppendWatcher (length (watchers c))]\<rparr>,
      c\<lparr>watchers := watchers c @ [make_chan 1]\<rparr>)"
    by (simp add: Watch_def watch_start_def)
  have prefix: "\<exists>n. trace ?t = take (progress (pc ?t)) (watch_trace n)"
  proof (cases "notify ?t")
    case None
    then show ?thesis using inv by (simp add: watch_inv_def)
  next
    case (Some n)
    then show ?thesis using inv by (auto simp: watch_inv_def)
  qed
  have reg: "before_callback (pc ?t) \<longrightarrow> (\<exists>n. notify ?t = Some n \<and> registered n ?c)"
    using inv by (cases "notify ?t") (auto simp: watch_inv_def)
  have ret: "pc ?t = AtReturn \<longrightarrow>
      (\<exists>n. trace ?t = watch_trace n) \<and> count_list (trace ?t) Callback = 1"
    using inv by (cases "notify ?t") (auto simp: watch_inv_def watch_trace_def)
  have wb: "\<forall>t c'. pc t = AtWaitBasic \<longrightarrow>
      (Watch_step d f (t, c') = (t, c') \<longleftrightarrow> \<not> Initialized (basic d) (basicStore c'))"
  proof (intro allI impI)
    fix t :: watch_call and c' :: "('bs, 'cs) client"
    assume p: "pc t = AtWaitBasic"
    have "pc (t\<lparr>pc := AtWaitCore, trace := trace t @ [WaitedBasic]\<rparr>) \<noteq> pc t"
      using p by simp
    then have "t\<lparr>pc := AtWaitCore, trace := trace t @ [WaitedBasic]\<rparr> \<noteq> t"
      by metis
    then show "Watch_step d f (t, c') = (t, c') \<longleftrightarrow> \<not> Initialized (basic d) (basicStore c')"
      using p by simp
  qed
  have wc: "\<forall>t c'. pc t = AtWaitCore \<longrightarrow>
      (Watch_step d f (t, c') = (t, c') \<longleftrightarrow> \<not> Initialized (core d) (coreStore c'))"
  proof (intro allI impI)
    fix t :: watch_call and c' :: "('bs, 'cs) client"
    assume p: "pc t = AtWaitCore"
    have "pc (t\<lparr>pc := AtCallback, trace := trace t @ [WaitedCore]\<rparr>) \<noteq> pc t"
      using p by simp
    then have "t\<lparr>pc := AtCallback, trace := trace t @ [WaitedCore]\<rparr> \<noteq> t"
      by metis
    then show "Watch_step d f (t, c') = (t, c') \<longleftrightarrow> \<not> Initialized (core d) (coreStore c')"
      using p by simp
  qed
  have all: "Initialized (basic d) (basicStore c) \<and> Initialized (core d) (coreStore c) \<longrightarrow>
      Watch d f [Self, Self, Self, Self, Self] c =
        (\<lparr>pc = AtReturn, notify = Some (length (watchers c)),
          trace = watch_trace (length (watchers c))\<rparr>,
         f (c\<lparr>watchers := watchers c @ [make_chan 1]\<rparr>))"
    by (simp add: Watch_def watch_start_def watch_trace_def)
  note turn = Watch_turn [of d f sched c]
  note whole = returned_decomposition [of d f sched c]
  show ?thesis
    apply (intro conjI)
            apply (rule first)
           apply (rule prefix)
          apply (rule reg)
         apply (rule ret)
        apply (rule wb)
       apply (rule wc)
      apply (rule all)
     apply (intro allI impI)
     apply (erule turn)
    apply (intro impI)
    apply (erule whole)
    done
qed

theorem Watch_registers_waits_calls_once_witness:
  "pc (fst (Watch example_deps (\<lambda>c. c) [Self, Self, Self] example_client)) = AtWaitBasic \<and>
   Callback \<notin> set (trace (fst (Watch example_deps (\<lambda>c. c) [Self, Self, Self] example_client))) \<and>
   registered 0 (snd (Watch example_deps (\<lambda>c. c) [Self, Self, Self] example_client)) \<and>
   \<not> Initialized (core example_deps) (coreStore (snd (Watch example_deps (\<lambda>c. c)
       [Self, Self, Other (CalledMockBasic (Some ''mocked'')), Self] example_client))) \<and>
   fst (Watch example_deps (\<lambda>c. c)
       ([Self, Self, Other (CalledMockBasic (Some ''mocked'')), Self] @ [Self]) example_client) =
     \<lparr>pc = AtWaitCore, notify = Some 0, trace = [MakeChan 1, AppendWatcher 0, WaitedBasic]\<rparr> \<and>
   pc (fst (Watch example_deps (\<lambda>c. c) example_schedule example_client)) = AtReturn \<and>
   trace (fst (Watch example_deps (\<lambda>c. c) example_schedule example_client)) = watch_trace 0 \<and>
   count_list (trace (fst (Watch example_deps (\<lambda>c. c) example_schedule example_client)))
     Callback = 1"
proof -
  have s: "basicStore example_client = \<lparr>lastValid = None, mock = None, ready = False\<rparr>"
    "coreStore example_client = \<lparr>lastValid = None, mock = None, ready = False\<rparr>"
    "watchers example_client = []"
    by (simp_all add: example_client_def init_def getMode_def Getenv_def example_deps_def
        spec_store_def)
  have blocked: "fst (Watch example_deps (\<lambda>c. c) [Self, Self, Self] example_client) =
      \<lparr>pc = AtWaitBasic, notify = Some 0, trace = [MakeChan 1, AppendWatcher 0]\<rparr>"
    using s by (simp add: Watch_def watch_start_def example_deps_def spec_store_def)
  define at_core where "at_core = Watch example_deps (\<lambda>c. c)
       [Self, Self, Other (CalledMockBasic (Some ''mocked'')), Self] example_client"
  have ac: "at_core =
      (\<lparr>pc = AtWaitCore, notify = Some 0, trace = [MakeChan 1, AppendWatcher 0, WaitedBasic]\<rparr>,
       \<lparr>basicStore = \<lparr>lastValid = None, mock = Some ''mocked'', ready = True\<rparr>,
        basicFetcher = basicFetcher example_client,
        coreStore = \<lparr>lastValid = None, mock = None, ready = False\<rparr>,
        coreFetcher = coreFetcher example_client,
        watchers = [make_chan 1]\<rparr>)"
    unfolding at_core_def using s
    by (simp add: Watch_def watch_start_def example_deps_def spec_store_def MockBasic_def)
  have nc: "\<not> Initialized (core example_deps) (coreStore (snd at_core))"
    using ac by (simp add: example_deps_def spec_store_def)
  have "Watch example_deps (\<lambda>c. c)
       ([Self, Self, Other (CalledMockBasic (Some ''mocked'')), Self] @ [Self]) example_client =
      (if Initialized (core example_deps) (coreStore (snd at_core))
       then ((fst at_core)\<lparr>pc := AtCallback, trace := trace (fst at_core) @ [WaitedCore]\<rparr>,
             snd at_core)
       else (fst at_core, snd at_core))"
    using Watch_registers_waits_calls_once
      [of example_deps "\<lambda>c. c" example_client
        "[Self, Self, Other (CalledMockBasic (Some ''mocked'')), Self]"]
      ac
    unfolding at_core_def [symmetric] by auto
  then have stay: "fst (Watch example_deps (\<lambda>c. c)
       ([Self, Self, Other (CalledMockBasic (Some ''mocked'')), Self] @ [Self]) example_client) =
     \<lparr>pc = AtWaitCore, notify = Some 0, trace = [MakeChan 1, AppendWatcher 0, WaitedBasic]\<rparr>"
    using nc ac by simp
  have returned: "fst (Watch example_deps (\<lambda>c. c) example_schedule example_client) =
      \<lparr>pc = AtReturn, notify = Some 0, trace = watch_trace 0\<rparr>"
    using s
    by (simp add: Watch_def watch_start_def example_schedule_def example_deps_def spec_store_def
        validate_nonempty_def MockBasic_def updateCore_def notifyWatchers_def watch_trace_def)
  have r0: "registered 0 (snd (Watch example_deps (\<lambda>c. c) [Self, Self, Self] example_client))"
    using Watch_registers_waits_calls_once
      [of example_deps "\<lambda>c. c" example_client "[Self, Self, Self]"] blocked
    by simp
  have once: "count_list (trace (fst (Watch example_deps (\<lambda>c. c) example_schedule example_client)))
     Callback = 1"
    using Watch_registers_waits_calls_once
      [of example_deps "\<lambda>c. c" example_client example_schedule] returned
    by simp
  show ?thesis
    using blocked stay nc returned r0 once unfolding at_core_def by simp
qed

end
